theory Spec2Isabelle
  imports Complex_Main
begin

section \<open>Numbers\<close>

text \<open>
  A monetary field of an invoice is a JSON number. Both consumers read it through a
  conversion: the Voucher Builder through \<^verbatim>\<open>Decimal(str(val))\<close>, the Ledger Planner through
  \<^verbatim>\<open>float(val)\<close>. A field is represented here by the rational number \<open>q\<close> that
  \<^verbatim>\<open>str(val)\<close> prints: for an \<^verbatim>\<open>int\<close> that is the integer itself, for a \<^verbatim>\<open>float\<close> it is the
  shortest decimal that reads back as the same float (so the literal \<^verbatim>\<open>1.005\<close> is
  \<open>1005 / 1000\<close>). \<^verbatim>\<open>Decimal(str(val))\<close> is then \<open>q\<close> exactly, and \<^verbatim>\<open>float(val)\<close> is \<open>q\<close>
  rounded to the nearest double. Values that are not finite numbers (\<^verbatim>\<open>None\<close>, text,
  \<^verbatim>\<open>NaN\<close>, \<^verbatim>\<open>Infinity\<close>) are outside this type.
\<close>

datatype error =
    InvalidOperation
  | DivisionByZero
  | OverflowError
  | ValueError
  | TypeError

definition pow10 :: "int \<Rightarrow> rat" where
  "pow10 k = (if 0 \<le> k then 10 ^ nat k else 1 / 10 ^ nat (- k))"

definition pow2 :: "int \<Rightarrow> rat" where
  "pow2 k = (if 0 \<le> k then 2 ^ nat k else 1 / 2 ^ nat (- k))"

text \<open>Rounding to an integer: ties away from zero (\<^verbatim>\<open>ROUND_HALF_UP\<close>) and ties to even
  (\<^verbatim>\<open>ROUND_HALF_EVEN\<close>, also what \<^verbatim>\<open>round\<close> does on a float).\<close>

definition round_half_up :: "rat \<Rightarrow> int" where
  "round_half_up x = (if x < 0 then - \<lfloor>\<bar>x\<bar> + 1 / 2\<rfloor> else \<lfloor>\<bar>x\<bar> + 1 / 2\<rfloor>)"

definition round_half_even :: "rat \<Rightarrow> int" where
  "round_half_even x =
     (let f = \<lfloor>x\<rfloor>; d = x - of_int f
      in if d < 1 / 2 then f
         else if 1 / 2 < d then f + 1
         else if even f then f else f + 1)"

text \<open>The number of digits of a positive integer in base \<open>b\<close>.\<close>

function ndigits :: "int \<Rightarrow> int \<Rightarrow> int" where
  "ndigits b n = (if 1 < b \<and> 0 < n then ndigits b (n div b) + 1 else 0)"
  by pat_completeness auto
termination
proof (relation "measure (\<lambda>(b, n). nat n)")
  show "wf (measure (\<lambda>(b, n). nat n))"
    by simp
next
  fix b n :: int
  assume "1 < b \<and> 0 < n"
  then have "n div b < n"
    by (simp add: int_div_less_self)
  with \<open>1 < b \<and> 0 < n\<close> show "((b, n div b), (b, n)) \<in> measure (\<lambda>(b, n). nat n)"
    by simp
qed

declare ndigits.simps [simp del]

text \<open>The position of the leading digit of a positive rational in base \<open>b\<close>:
  the \<open>e\<close> with \<open>b ^ e \<le> x < b ^ (e + 1)\<close>.\<close>

definition lead_exp :: "int \<Rightarrow> rat \<Rightarrow> int" where
  "lead_exp b x = (if 1 \<le> x then ndigits b \<lfloor>x\<rfloor> - 1 else - ndigits b (\<lceil>1 / x\<rceil> - 1))"

subsection \<open>Python's \<^verbatim>\<open>decimal\<close> module, default context\<close>

text \<open>The default context has 28 significant digits and rounds half-even. Every
  arithmetic operation returns the exact result rounded to the context.\<close>

definition prec :: nat where
  "prec = 28"

definition ctx_round :: "rat \<Rightarrow> rat" where
  "ctx_round x =
     (if x = 0 then 0
      else let q = lead_exp 10 \<bar>x\<bar> - (int prec - 1)
           in sgn x * of_int (round_half_even (\<bar>x\<bar> / pow10 q)) * pow10 q)"

definition dec_add :: "rat \<Rightarrow> rat \<Rightarrow> rat" where
  "dec_add a b = ctx_round (a + b)"

definition dec_sub :: "rat \<Rightarrow> rat \<Rightarrow> rat" where
  "dec_sub a b = ctx_round (a - b)"

definition dec_neg :: "rat \<Rightarrow> rat" where
  "dec_neg a = ctx_round (- a)"

definition dec_mul :: "rat \<Rightarrow> rat \<Rightarrow> rat" where
  "dec_mul a b = ctx_round (a * b)"

definition dec_div :: "rat \<Rightarrow> rat \<Rightarrow> error + rat" where
  "dec_div a b = (if b = 0 then Inl DivisionByZero else Inr (ctx_round (a / b)))"

text \<open>\<^verbatim>\<open>x.quantize(Decimal("0.01"), rounding=ROUND_HALF_UP)\<close> and \<^verbatim>\<open>x.quantize(0)\<close>:
  the operation signals \<^verbatim>\<open>InvalidOperation\<close> when the coefficient of the result has more
  digits than the precision.\<close>

definition quantize_cents_half_up :: "rat \<Rightarrow> error + rat" where
  "quantize_cents_half_up x =
     (let c = round_half_up (x * 100)
      in if 10 ^ prec \<le> \<bar>c\<bar> then Inl InvalidOperation else Inr (of_int c / 100))"

definition quantize_unit :: "rat \<Rightarrow> error + int" where
  "quantize_unit x =
     (let c = round_half_even x
      in if 10 ^ prec \<le> \<bar>c\<bar> then Inl InvalidOperation else Inr c)"

text \<open>\<^verbatim>\<open>def r2(val): return Decimal(str(val)).quantize(Decimal("0.01"), rounding=ROUND_HALF_UP)\<close>\<close>

definition r2 :: "rat \<Rightarrow> error + rat" where
  "r2 val = quantize_cents_half_up val"

subsection \<open>Python floats\<close>

text \<open>A finite double is the rational it denotes; \<open>None\<close> stands for an infinity. Every
  IEEE operation returns the exact result rounded to the nearest double, ties to even
  (53 significant bits, least exponent \<open>- 1074\<close>), and overflows to infinity.\<close>

definition fl :: "rat \<Rightarrow> rat option" where
  "fl x =
     (if x = 0 then Some 0
      else let e = lead_exp 2 \<bar>x\<bar>;
               u = pow2 (max (e - 52) (- 1074));
               r = of_int (round_half_even (\<bar>x\<bar> / u)) * u
           in if pow2 1024 \<le> r then None else Some (sgn x * r))"

text \<open>\<^verbatim>\<open>float(val)\<close>: an \<^verbatim>\<open>int\<close> too large for a double raises \<^verbatim>\<open>OverflowError\<close>.\<close>

definition to_float :: "rat \<Rightarrow> error + rat" where
  "to_float q = (case fl q of None \<Rightarrow> Inl OverflowError | Some f \<Rightarrow> Inr f)"

definition fadd :: "rat \<Rightarrow> rat \<Rightarrow> rat option" where
  "fadd a b = fl (a + b)"

definition fdiv :: "rat option \<Rightarrow> rat \<Rightarrow> rat option" where
  "fdiv a b = (case a of None \<Rightarrow> None | Some x \<Rightarrow> fl (x / b))"

definition fmul :: "rat option \<Rightarrow> rat \<Rightarrow> rat option" where
  "fmul a b = (case a of None \<Rightarrow> None | Some x \<Rightarrow> fl (x * b))"

text \<open>\<^verbatim>\<open>round(x)\<close> on a float: the nearest integer, ties to even; an infinity raises
  \<^verbatim>\<open>OverflowError\<close>.\<close>

definition py_round :: "rat option \<Rightarrow> error + int" where
  "py_round a = (case a of None \<Rightarrow> Inl OverflowError | Some x \<Rightarrow> Inr (round_half_even x))"

subsection \<open>Formatting\<close>

definition digit_char :: "nat \<Rightarrow> char" where
  "digit_char n = ''0123456789'' ! n"

function str_nat :: "nat \<Rightarrow> string" where
  "str_nat n = (if n < 10 then [digit_char n] else str_nat (n div 10) @ [digit_char (n mod 10)])"
  by pat_completeness auto
termination
  by (relation "measure id") auto

declare str_nat.simps [simp del]

text \<open>\<^verbatim>\<open>{rate}\<close> in an f-string: the decimal digits of an \<^verbatim>\<open>int\<close>.\<close>

definition str_int :: "int \<Rightarrow> string" where
  "str_int k = (if k < 0 then CHR ''-'' # str_nat (nat (- k)) else str_nat (nat k))"

text \<open>\<^verbatim>\<open>{x}\<close> for a value that may be \<^verbatim>\<open>None\<close>.\<close>

definition str_opt :: "string option \<Rightarrow> string" where
  "str_opt x = (case x of None \<Rightarrow> ''None'' | Some s \<Rightarrow> s)"

section \<open>Data\<close>

text \<open>The raw filing, as \<^verbatim>\<open>json.loads\<close> returns it; an absent key is \<open>None\<close>.\<close>

record raw_invoice =
  j_dt :: "string option"
  j_inum :: "string option"
  j_txval :: "rat option"
  j_igst :: "rat option"
  j_cgst :: "rat option"
  j_sgst :: "rat option"
  j_val :: "rat option"

record supplier =
  j_trdnm :: "string option"
  j_ctin :: "string option"
  j_inv :: "raw_invoice list option"

record docdata =
  j_b2b :: "supplier list option"

record data_root =
  j_rtnprd :: "string option"
  j_docdata :: "docdata option"

record raw_filing =
  j_data :: "data_root option"

record invoice =
  supplier_name :: "string option"
  supplier_gstin :: "string option"
  date :: "string option"
  invoice_number :: "string option"
  return_period :: string
  taxable_value :: rat
  igst_amount :: rat
  cgst_amount :: rat
  sgst_amount :: rat
  total_invoice_value :: rat

section \<open>Extractor\<close>

definition get_or :: "'a option \<Rightarrow> 'a \<Rightarrow> 'a" where
  "get_or x d = (case x of None \<Rightarrow> d | Some v \<Rightarrow> v)"

definition extract_invoice :: "string \<Rightarrow> supplier \<Rightarrow> raw_invoice \<Rightarrow> invoice" where
  "extract_invoice rp s r =
     \<lparr>supplier_name = j_trdnm s,
      supplier_gstin = j_ctin s,
      date = j_dt r,
      invoice_number = j_inum r,
      return_period = rp,
      taxable_value = get_or (j_txval r) 0,
      igst_amount = get_or (j_igst r) 0,
      cgst_amount = get_or (j_cgst r) 0,
      sgst_amount = get_or (j_sgst r) 0,
      total_invoice_value = get_or (j_val r) 0\<rparr>"

text \<open>The inner loop, \<^verbatim>\<open>for inv in supplier.get("inv", [])\<close>, appending to the list.\<close>

fun inv_loop :: "string \<Rightarrow> supplier \<Rightarrow> invoice list \<Rightarrow> raw_invoice list \<Rightarrow> invoice list" where
  "inv_loop rp s acc [] = acc"
| "inv_loop rp s acc (r # rs) = inv_loop rp s (acc @ [extract_invoice rp s r]) rs"

text \<open>The outer loop, \<^verbatim>\<open>for supplier in b2b_sections\<close>.\<close>

fun supplier_loop :: "string \<Rightarrow> invoice list \<Rightarrow> supplier list \<Rightarrow> invoice list" where
  "supplier_loop rp acc [] = acc"
| "supplier_loop rp acc (s # ss) = supplier_loop rp (inv_loop rp s acc (get_or (j_inv s) [])) ss"

definition process_gstr2b_logic :: "raw_filing \<Rightarrow> invoice list" where
  "process_gstr2b_logic raw_data =
     (let root = get_or (j_data raw_data) \<lparr>j_rtnprd = None, j_docdata = None\<rparr>;
          rp = get_or (j_rtnprd root) ''N/A'';
          b2b_sections = get_or (j_b2b (get_or (j_docdata root) \<lparr>j_b2b = None\<rparr>)) []
      in supplier_loop rp [] b2b_sections)"

section \<open>Ledger Planner\<close>

text \<open>A \<^verbatim>\<open>LEDGER\<close> element of the masters document: its \<^verbatim>\<open>NAME\<close>, \<^verbatim>\<open>PARENT\<close>,
  \<^verbatim>\<open>ISBILLWISEON\<close> and, for a tax ledger, \<^verbatim>\<open>TAXTYPE\<close> and \<^verbatim>\<open>GSTDUTYHEAD\<close>.\<close>

record ledger =
  l_name :: "string option"
  l_parent :: string
  l_isbillwiseon :: string
  l_taxtype :: "string option"
  l_gstdutyhead :: "string option"

text \<open>The state of \<^verbatim>\<open>generate_masters_string\<close>: the children of \<^verbatim>\<open>REQUESTDATA\<close> in the
  order they were appended, and the set \<^verbatim>\<open>created\<close>.\<close>

record masters =
  req_data :: "ledger list"
  created :: "string option set"

definition create_ledger_elem ::
  "masters \<Rightarrow> string option \<Rightarrow> string \<Rightarrow> bool \<Rightarrow> string option \<Rightarrow> masters" where
  "create_ledger_elem st name grp is_gst gst_head =
     (if name \<in> created st then st
      else \<lparr>req_data = req_data st @
               [\<lparr>l_name = name,
                 l_parent = grp,
                 l_isbillwiseon = (if grp = ''Sundry Creditors'' then ''Yes'' else ''No''),
                 l_taxtype = (if is_gst then Some ''GST'' else None),
                 l_gstdutyhead = (if is_gst then gst_head else None)\<rparr>],
             created = insert name (created st)\<rparr>)"

text \<open>\<^verbatim>\<open>round((igst / taxable) * 100)\<close> and \<^verbatim>\<open>round(((cgst + sgst) / taxable) * 100)\<close>,
  on floats.\<close>

definition interstate_rate :: "rat \<Rightarrow> rat \<Rightarrow> error + int" where
  "interstate_rate igst taxable = py_round (fmul (fdiv (Some igst) taxable) 100)"

definition local_rate :: "rat \<Rightarrow> rat \<Rightarrow> rat \<Rightarrow> error + int" where
  "local_rate cgst sgst taxable = py_round (fmul (fdiv (fadd cgst sgst) taxable) 100)"

definition interstate_step :: "masters \<Rightarrow> rat \<Rightarrow> rat \<Rightarrow> error + masters" where
  "interstate_step st igst taxable =
     (if 0 < igst \<and> 0 < taxable then
        (case interstate_rate igst taxable of
           Inl e \<Rightarrow> Inl e
         | Inr rate \<Rightarrow>
             Inr (create_ledger_elem
                   (create_ledger_elem st
                      (Some (''Interstate Purchase '' @ str_int rate @ ''%''))
                      ''Purchase Accounts'' False None)
                   (Some (''Input IGST '' @ str_int rate @ ''%''))
                   ''Duties & Taxes'' True (Some ''Integrated Tax'')))
      else Inr st)"

definition local_step :: "masters \<Rightarrow> rat \<Rightarrow> rat \<Rightarrow> rat \<Rightarrow> error + masters" where
  "local_step st cgst sgst taxable =
     (if (0 < cgst \<or> 0 < sgst) \<and> 0 < taxable then
        (case local_rate cgst sgst taxable of
           Inl e \<Rightarrow> Inl e
         | Inr rate \<Rightarrow>
             Inr (create_ledger_elem
                   (create_ledger_elem
                      (create_ledger_elem st
                         (Some (''Local Purchase '' @ str_int rate @ ''%''))
                         ''Purchase Accounts'' False None)
                      (Some (''Input CGST '' @ str_int (rate div 2) @ ''%''))
                      ''Duties & Taxes'' True (Some ''Central Tax''))
                   (Some (''Input SGST '' @ str_int (rate div 2) @ ''%''))
                   ''Duties & Taxes'' True (Some ''State Tax'')))
      else Inr st)"

text \<open>The body of \<^verbatim>\<open>for inv in invoices\<close> in \<^verbatim>\<open>generate_masters_string\<close>: the four
  conversions to float, the supplier's ledger, then the two \<^verbatim>\<open>if\<close> statements one after
  the other.\<close>

definition plan_invoice :: "masters \<Rightarrow> invoice \<Rightarrow> error + masters" where
  "plan_invoice st i =
     (case to_float (taxable_value i) of Inl e \<Rightarrow> Inl e | Inr taxable \<Rightarrow>
     (case to_float (igst_amount i) of Inl e \<Rightarrow> Inl e | Inr igst \<Rightarrow>
     (case to_float (cgst_amount i) of Inl e \<Rightarrow> Inl e | Inr cgst \<Rightarrow>
     (case to_float (sgst_amount i) of Inl e \<Rightarrow> Inl e | Inr sgst \<Rightarrow>
     (case interstate_step
             (create_ledger_elem st (supplier_name i) ''Sundry Creditors'' False None)
             igst taxable of
        Inl e \<Rightarrow> Inl e
      | Inr st' \<Rightarrow> local_step st' cgst sgst taxable)))))"

fun plan_loop :: "masters \<Rightarrow> invoice list \<Rightarrow> error + masters" where
  "plan_loop st [] = Inr st"
| "plan_loop st (i # rest) =
     (case plan_invoice st i of Inl e \<Rightarrow> Inl e | Inr st' \<Rightarrow> plan_loop st' rest)"

text \<open>The masters document: the company name and the ledgers in creation order. Its
  serialisation by \<^verbatim>\<open>prettify\<close> is not part of the model.\<close>

record masters_document =
  m_company :: string
  m_ledgers :: "ledger list"

definition generate_masters_string :: "invoice list \<Rightarrow> string \<Rightarrow> error + masters_document" where
  "generate_masters_string invoices company_name =
     (case plan_loop
             (create_ledger_elem \<lparr>req_data = [], created = {}\<rparr>
                (Some ''Round Off'') ''Indirect Expenses'' False None)
             invoices of
        Inl e \<Rightarrow> Inl e
      | Inr st \<Rightarrow> Inr \<lparr>m_company = company_name, m_ledgers = req_data st\<rparr>)"

section \<open>Voucher Builder\<close>

subsection \<open>\<^verbatim>\<open>datetime.strptime(s, "%d-%m-%Y")\<close>\<close>

text \<open>The format is matched as the regular expression
  \<^verbatim>\<open>(3[0-1]|[1-2]\d|0[1-9]|[1-9]| [1-9])-(1[0-2]|0[1-9]|[1-9])-(\d\d\d\d)\<close> against the whole
  text; none of the three fields can hold a dash, so the day is the text before the first
  dash and the month the text before the second. The date must then exist in the calendar
  (years start at 1). A value that is not text raises \<^verbatim>\<open>TypeError\<close>, every other failure
  \<^verbatim>\<open>ValueError\<close>. Characters are bytes here, so digits outside ASCII are not covered.\<close>

definition is_digit :: "char \<Rightarrow> bool" where
  "is_digit c = (c \<in> set ''0123456789'')"

definition digit_of :: "char \<Rightarrow> nat" where
  "digit_of c = of_char c - 48"

definition parse_d :: "string \<Rightarrow> nat option" where
  "parse_d s =
     (case s of
        [a] \<Rightarrow> if a \<in> set ''123456789'' then Some (digit_of a) else None
      | [a, b] \<Rightarrow>
          if a = CHR ''3'' \<and> b \<in> set ''01'' then Some (30 + digit_of b)
          else if a \<in> set ''12'' \<and> is_digit b then Some (10 * digit_of a + digit_of b)
          else if a \<in> set ''0 '' \<and> b \<in> set ''123456789'' then Some (digit_of b)
          else None
      | _ \<Rightarrow> None)"

definition parse_m :: "string \<Rightarrow> nat option" where
  "parse_m s =
     (case s of
        [a] \<Rightarrow> if a \<in> set ''123456789'' then Some (digit_of a) else None
      | [a, b] \<Rightarrow>
          if a = CHR ''1'' \<and> b \<in> set ''012'' then Some (10 + digit_of b)
          else if a = CHR ''0'' \<and> b \<in> set ''123456789'' then Some (digit_of b)
          else None
      | _ \<Rightarrow> None)"

definition parse_Y :: "string \<Rightarrow> nat option" where
  "parse_Y s =
     (case s of
        [a, b, c, d] \<Rightarrow>
          if is_digit a \<and> is_digit b \<and> is_digit c \<and> is_digit d
          then Some (1000 * digit_of a + 100 * digit_of b + 10 * digit_of c + digit_of d)
          else None
      | _ \<Rightarrow> None)"

definition split_dash :: "string \<Rightarrow> (string \<times> string) option" where
  "split_dash s =
     (case dropWhile (\<lambda>c. c \<noteq> CHR ''-'') s of
        [] \<Rightarrow> None
      | _ # rest \<Rightarrow> Some (takeWhile (\<lambda>c. c \<noteq> CHR ''-'') s, rest))"

definition is_leap :: "nat \<Rightarrow> bool" where
  "is_leap y = (y mod 4 = 0 \<and> (y mod 100 \<noteq> 0 \<or> y mod 400 = 0))"

definition days_in_month :: "nat \<Rightarrow> nat \<Rightarrow> nat" where
  "days_in_month y m =
     (if m = 2 then (if is_leap y then 29 else 28)
      else if m \<in> {4, 6, 9, 11} then 30 else 31)"

text \<open>The result is the triple (year, month, day); \<^verbatim>\<open>strftime("%Y%m%d")\<close> prints it.\<close>

definition strptime :: "string option \<Rightarrow> error + (nat \<times> nat \<times> nat)" where
  "strptime x =
     (case x of
        None \<Rightarrow> Inl TypeError
      | Some s \<Rightarrow>
          (case split_dash s of
             None \<Rightarrow> Inl ValueError
           | Some (ds, rest) \<Rightarrow>
               (case split_dash rest of
                  None \<Rightarrow> Inl ValueError
                | Some (ms, ys) \<Rightarrow>
                    (case (parse_d ds, parse_m ms, parse_Y ys) of
                       (Some d, Some m, Some y) \<Rightarrow>
                         if 1 \<le> y \<and> d \<le> days_in_month y m then Inr (y, m, d)
                         else Inl ValueError
                     | _ \<Rightarrow> Inl ValueError))))"

subsection \<open>Vouchers\<close>

text \<open>The text of an \<^verbatim>\<open>AMOUNT\<close> element: \<^verbatim>\<open>{x}\<close> prints the decimal, \<^verbatim>\<open>-{x}\<close> prints a
  minus sign and then the decimal. The signed amount of the second is the negated
  decimal.\<close>

datatype amount_text = Plain rat | Minus rat

fun signed_amount :: "amount_text \<Rightarrow> rat" where
  "signed_amount (Plain x) = x"
| "signed_amount (Minus x) = - x"

record allocation =
  a_name :: string
  a_billtype :: string
  a_amount :: amount_text

text \<open>An \<^verbatim>\<open>ALLLEDGERENTRIES.LIST\<close> element.\<close>

record entry =
  ledgername :: string
  isdeemedpositive :: string
  amount :: amount_text
  billallocations :: "allocation option"

record voucher =
  v_date :: "nat \<times> nat \<times> nat"
  v_referencedate :: "nat \<times> nat \<times> nat"
  v_reference :: string
  v_vouchernumber :: string
  v_partyledgername :: string
  entries :: "entry list"

text \<open>\<^verbatim>\<open>int((tax_total / taxable * 100).quantize(0)) if taxable != 0 else 0\<close>\<close>

definition voucher_rate :: "rat \<Rightarrow> rat \<Rightarrow> error + int" where
  "voucher_rate tax_total taxable =
     (if taxable \<noteq> 0 then
        (case dec_div tax_total taxable of
           Inl e \<Rightarrow> Inl e
         | Inr d \<Rightarrow> quantize_unit (dec_mul d 100))
      else Inr 0)"

definition purchase_ledger :: "rat \<Rightarrow> int \<Rightarrow> string" where
  "purchase_ledger igst rate =
     (if 0 < igst then ''Interstate Purchase '' @ str_int rate @ ''%''
      else ''Local Purchase '' @ str_int rate @ ''%'')"

definition party_entry :: "invoice \<Rightarrow> rat \<Rightarrow> entry" where
  "party_entry i invoice_total =
     \<lparr>ledgername = str_opt (supplier_name i),
      isdeemedpositive = ''No'',
      amount = Plain invoice_total,
      billallocations =
        Some \<lparr>a_name = str_opt (invoice_number i),
              a_billtype = ''New Ref'',
              a_amount = Plain invoice_total\<rparr>\<rparr>"

definition debit_entry :: "string \<Rightarrow> rat \<Rightarrow> entry" where
  "debit_entry nm x =
     \<lparr>ledgername = nm, isdeemedpositive = ''Yes'', amount = Minus x, billallocations = None\<rparr>"

text \<open>\<^verbatim>\<open>if igst > 0: ... else: ...\<close>\<close>

definition tax_entries :: "int \<Rightarrow> rat \<Rightarrow> rat \<Rightarrow> rat \<Rightarrow> entry list" where
  "tax_entries rate igst cgst sgst =
     (if 0 < igst then [debit_entry (''Input IGST '' @ str_int rate @ ''%'') igst]
      else [debit_entry (''Input CGST '' @ str_int (rate div 2) @ ''%'') cgst,
            debit_entry (''Input SGST '' @ str_int (rate div 2) @ ''%'') sgst])"

text \<open>\<^verbatim>\<open>if debit_calc != invoice_total: ...\<close>\<close>

definition round_off_entries :: "rat \<Rightarrow> rat \<Rightarrow> entry list" where
  "round_off_entries debit_calc invoice_total =
     (if debit_calc \<noteq> invoice_total then
        (let diff = dec_sub invoice_total debit_calc;
             deemed = (if 0 < diff then ''No'' else ''Yes'')
         in [\<lparr>ledgername = ''Round Off'',
               isdeemedpositive = deemed,
               amount = Plain (dec_neg diff),
               billallocations = None\<rparr>])
      else [])"

text \<open>The body of \<^verbatim>\<open>for inv in invoices\<close> in \<^verbatim>\<open>generate_vouchers_string\<close>.\<close>

definition build_voucher :: "invoice \<Rightarrow> error + voucher" where
  "build_voucher i =
     (case strptime (date i) of Inl e \<Rightarrow> Inl e | Inr vch_date \<Rightarrow>
     (case r2 (taxable_value i) of Inl e \<Rightarrow> Inl e | Inr taxable \<Rightarrow>
     (case r2 (igst_amount i) of Inl e \<Rightarrow> Inl e | Inr igst \<Rightarrow>
     (case r2 (cgst_amount i) of Inl e \<Rightarrow> Inl e | Inr cgst \<Rightarrow>
     (case r2 (sgst_amount i) of Inl e \<Rightarrow> Inl e | Inr sgst \<Rightarrow>
     (case r2 (total_invoice_value i) of Inl e \<Rightarrow> Inl e | Inr invoice_total \<Rightarrow>
      (let tax_total = dec_add (dec_add igst cgst) sgst;
           debit_calc = dec_add taxable tax_total
       in (case voucher_rate tax_total taxable of
             Inl e \<Rightarrow> Inl e
           | Inr rate \<Rightarrow>
               Inr \<lparr>v_date = vch_date,
                    v_referencedate = vch_date,
                    v_reference = str_opt (invoice_number i),
                    v_vouchernumber = str_opt (invoice_number i),
                    v_partyledgername = str_opt (supplier_name i),
                    entries =
                      [party_entry i invoice_total,
                       debit_entry (purchase_ledger igst rate) taxable]
                      @ tax_entries rate igst cgst sgst
                      @ round_off_entries debit_calc invoice_total\<rparr>))))))))"

fun voucher_loop :: "voucher list \<Rightarrow> invoice list \<Rightarrow> error + voucher list" where
  "voucher_loop acc [] = Inr acc"
| "voucher_loop acc (i # rest) =
     (case build_voucher i of Inl e \<Rightarrow> Inl e | Inr v \<Rightarrow> voucher_loop (acc @ [v]) rest)"

record vouchers_document =
  v_company :: string
  v_vouchers :: "voucher list"

definition generate_vouchers_string :: "invoice list \<Rightarrow> string \<Rightarrow> error + vouchers_document" where
  "generate_vouchers_string invoices company_name =
     (case voucher_loop [] invoices of
        Inl e \<Rightarrow> Inl e
      | Inr vs \<Rightarrow> Inr \<lparr>v_company = company_name, v_vouchers = vs\<rparr>)"

section \<open>The conversion\<close>

text \<open>\<^verbatim>\<open>process_gst\<close> after \<^verbatim>\<open>json.loads\<close>: any exception becomes the error response, and
  the three results are returned together or not at all.\<close>

definition process_gst ::
  "raw_filing \<Rightarrow> string \<Rightarrow> error + (invoice list \<times> masters_document \<times> vouchers_document)" where
  "process_gst raw_json company_name =
     (let invoices = process_gstr2b_logic raw_json
      in case generate_masters_string invoices company_name of
           Inl e \<Rightarrow> Inl e
         | Inr masters_xml \<Rightarrow>
             (case generate_vouchers_string invoices company_name of
                Inl e \<Rightarrow> Inl e
              | Inr vouchers_xml \<Rightarrow> Inr (invoices, masters_xml, vouchers_xml)))"

section \<open>Auxiliary definitions\<close>

text \<open>The planner's state is consistent when \<^verbatim>\<open>created\<close> holds exactly the names of the
  ledgers appended so far and no name was appended twice.\<close>

definition consistent :: "masters \<Rightarrow> bool" where
  "consistent st = (created st = set (map l_name (req_data st)) \<and> distinct (map l_name (req_data st)))"

text \<open>The sum of the signed amounts of the lines of a voucher.\<close>

definition voucher_balance :: "voucher \<Rightarrow> rat" where
  "voucher_balance v = sum_list (map (\<lambda>e. signed_amount (amount e)) (entries v))"

subsection \<open>Date texts\<close>

text \<open>The pattern \<^verbatim>\<open>DD-MM-YYYY\<close> read as written: two digits, a dash, two digits, a dash
  and four digits.\<close>

definition dd_mm_yyyy :: "string \<Rightarrow> bool" where
  "dd_mm_yyyy s =
     (length s = 10 \<and> s ! 2 = CHR ''-'' \<and> s ! 5 = CHR ''-''
      \<and> list_all is_digit (take 2 s @ take 2 (drop 3 s) @ drop 6 s))"

text \<open>A day-month-year date, described by the texts that denote it and not by the way
  it is parsed: a day of the month written with its digits, a one-digit day also with a
  leading zero or a leading space; a month from 1 to 12 written with its digits, a one-digit
  month also with a leading zero; a year from 1 to 9999 written with four digits; the day
  exists in that month of that year; the three texts are joined by dashes. The digits are
  the ten digits \<^verbatim>\<open>0\<close> to \<^verbatim>\<open>9\<close>: a text is a sequence of 8-bit characters, and among
  these the parse reads no other character as a digit.\<close>

definition day_texts :: "nat \<Rightarrow> string list" where
  "day_texts d =
     (if d < 10 then [[digit_char d], [CHR ''0'', digit_char d], [CHR '' '', digit_char d]]
      else [[digit_char (d div 10), digit_char (d mod 10)]])"

definition month_texts :: "nat \<Rightarrow> string list" where
  "month_texts m =
     (if m < 10 then [[digit_char m], [CHR ''0'', digit_char m]]
      else [[digit_char (m div 10), digit_char (m mod 10)]])"

definition year_text :: "nat \<Rightarrow> string" where
  "year_text y =
     [digit_char (y div 1000), digit_char (y div 100 mod 10), digit_char (y div 10 mod 10),
      digit_char (y mod 10)]"

definition dmy_date :: "string \<Rightarrow> bool" where
  "dmy_date s =
     (\<exists>y \<in> {1..9999}. \<exists>m \<in> {1..12}. \<exists>d \<in> {1..days_in_month y m}.
        \<exists>ds \<in> set (day_texts d). \<exists>ms \<in> set (month_texts m).
          s = ds @ ''-'' @ ms @ ''-'' @ year_text y)"

text \<open>The date field of an invoice holds such a date; an absent field does not.\<close>

definition dmy_field :: "string option \<Rightarrow> bool" where
  "dmy_field x = (case x of None \<Rightarrow> False | Some s \<Rightarrow> dmy_date s)"

subsection \<open>Sample data\<close>

text \<open>A normalized invoice of the supplier \<^verbatim>\<open>Acme Traders\<close> with the given date and amounts,
  the raw invoice it is extracted from, a filing with two groups of that supplier, the
  voucher built from a sample invoice dated 01-04-2024 and its party line, and the ledgers
  the Planner creates. They are used to evaluate the functions on concrete inputs.\<close>

definition sample :: "string \<Rightarrow> rat \<Rightarrow> rat \<Rightarrow> rat \<Rightarrow> rat \<Rightarrow> rat \<Rightarrow> invoice" where
  "sample d t ig cg sg tot =
     \<lparr>supplier_name = Some ''Acme Traders'',
      supplier_gstin = Some ''27AAAAA0000A1Z5'',
      date = Some d,
      invoice_number = Some ''INV-1'',
      return_period = ''042024'',
      taxable_value = t,
      igst_amount = ig,
      cgst_amount = cg,
      sgst_amount = sg,
      total_invoice_value = tot\<rparr>"

definition sample_raw :: "string \<Rightarrow> rat \<Rightarrow> rat \<Rightarrow> rat \<Rightarrow> rat \<Rightarrow> rat \<Rightarrow> raw_invoice" where
  "sample_raw d t ig cg sg tot =
     \<lparr>j_dt = Some d, j_inum = Some ''INV-1'', j_txval = Some t, j_igst = Some ig,
      j_cgst = Some cg, j_sgst = Some sg, j_val = Some tot\<rparr>"

definition sample_filing :: "raw_invoice list \<Rightarrow> raw_invoice list \<Rightarrow> raw_filing" where
  "sample_filing rs rs' =
     \<lparr>j_data = Some
        \<lparr>j_rtnprd = Some ''042024'',
         j_docdata = Some
           \<lparr>j_b2b = Some
              [\<lparr>j_trdnm = Some ''Acme Traders'', j_ctin = Some ''27AAAAA0000A1Z5'',
                j_inv = Some rs\<rparr>,
               \<lparr>j_trdnm = Some ''Acme Traders'', j_ctin = Some ''27AAAAA0000A1Z5'',
                j_inv = Some rs'\<rparr>]\<rparr>\<rparr>\<rparr>"

definition sample_voucher :: "entry list \<Rightarrow> voucher" where
  "sample_voucher es =
     \<lparr>v_date = (2024, 4, 1),
      v_referencedate = (2024, 4, 1),
      v_reference = ''INV-1'',
      v_vouchernumber = ''INV-1'',
      v_partyledgername = ''Acme Traders'',
      entries = es\<rparr>"

definition sample_party :: "rat \<Rightarrow> entry" where
  "sample_party tot =
     \<lparr>ledgername = ''Acme Traders'',
      isdeemedpositive = ''No'',
      amount = Plain tot,
      billallocations =
        Some \<lparr>a_name = ''INV-1'', a_billtype = ''New Ref'', a_amount = Plain tot\<rparr>\<rparr>"

definition round_off_ledger :: ledger where
  "round_off_ledger =
     \<lparr>l_name = Some ''Round Off'', l_parent = ''Indirect Expenses'', l_isbillwiseon = ''No'',
      l_taxtype = None, l_gstdutyhead = None\<rparr>"

definition sample_party_ledger :: ledger where
  "sample_party_ledger =
     \<lparr>l_name = Some ''Acme Traders'', l_parent = ''Sundry Creditors'', l_isbillwiseon = ''Yes'',
      l_taxtype = None, l_gstdutyhead = None\<rparr>"

definition purchase_ledger_rec :: "string \<Rightarrow> ledger" where
  "purchase_ledger_rec nm =
     \<lparr>l_name = Some nm, l_parent = ''Purchase Accounts'', l_isbillwiseon = ''No'',
      l_taxtype = None, l_gstdutyhead = None\<rparr>"

definition tax_ledger_rec :: "string \<Rightarrow> string \<Rightarrow> ledger" where
  "tax_ledger_rec nm head =
     \<lparr>l_name = Some nm, l_parent = ''Duties & Taxes'', l_isbillwiseon = ''No'',
      l_taxtype = Some ''GST'', l_gstdutyhead = Some head\<rparr>"

section \<open>Properties of the numeric layer\<close>

lemma floor_rat_numeral_div [simp]: "\<lfloor>(numeral a :: rat) / numeral b\<rfloor> = numeral a div numeral b"
  by (metis floor_divide_of_int_eq of_int_numeral)

lemma ceiling_rat_numeral_div [simp]:
  "\<lceil>(numeral a :: rat) / numeral b\<rceil> = - (- numeral a div numeral b)"
  by (metis ceiling_def floor_divide_of_int_eq minus_divide_left of_int_minus of_int_numeral)

lemma ndigits_upper: "1 < b \<Longrightarrow> 0 \<le> n \<Longrightarrow> 0 \<le> ndigits b n \<and> n < b ^ nat (ndigits b n)"
proof (induction b n rule: ndigits.induct)
  case (1 b n)
  show ?case
  proof (cases "0 < n")
    case False
    with "1.prems" have "n = 0" by simp
    then show ?thesis by (simp add: ndigits.simps)
  next
    case True
    with "1.prems" have c: "1 < b \<and> 0 < n" by simp
    have "0 \<le> n div b" using "1.prems" True by (simp add: pos_imp_zdiv_nonneg_iff)
    with "1.IH" c "1.prems" have ih: "0 \<le> ndigits b (n div b)" "n div b < b ^ nat (ndigits b (n div b))"
      by simp_all
    have eq: "ndigits b n = ndigits b (n div b) + 1"
      using c by (subst ndigits.simps) simp
    have "n mod b < b" using c by simp
    then have "n < b * (n div b) + b"
      using mult_div_mod_eq [of b n] by linarith
    then have "n < b * (n div b + 1)"
      by (simp add: algebra_simps)
    also have "\<dots> \<le> b * b ^ nat (ndigits b (n div b))"
      using ih c by (simp add: mult_left_mono)
    also have "\<dots> = b ^ nat (ndigits b n)"
      using ih eq by (simp add: nat_add_distrib)
    finally show ?thesis using ih eq by simp
  qed
qed

lemma ndigits_lower: "1 < b \<Longrightarrow> 0 < n \<Longrightarrow> 1 \<le> ndigits b n \<and> b ^ nat (ndigits b n - 1) \<le> n"
proof (induction b n rule: ndigits.induct)
  case (1 b n)
  then have c: "1 < b \<and> 0 < n" by simp
  have eq: "ndigits b n = ndigits b (n div b) + 1"
    using c by (subst ndigits.simps) simp
  have nn: "0 \<le> n div b" using c by (simp add: pos_imp_zdiv_nonneg_iff)
  show ?case
  proof (cases "0 < n div b")
    case False
    with nn have "n div b = 0" by simp
    then have "ndigits b n = 1" using eq by (simp add: ndigits.simps)
    then show ?thesis using c by simp
  next
    case True
    with "1.IH" c have ih: "1 \<le> ndigits b (n div b)" "b ^ nat (ndigits b (n div b) - 1) \<le> n div b"
      by simp_all
    have "nat (ndigits b n - 1) = Suc (nat (ndigits b (n div b) - 1))"
      using ih eq by simp
    then have "b ^ nat (ndigits b n - 1) = b * b ^ nat (ndigits b (n div b) - 1)"
      by simp
    also have "\<dots> \<le> b * (n div b)"
      using ih c by (simp add: mult_left_mono)
    also have "\<dots> \<le> n"
    proof -
      have "0 \<le> n mod b" using c by simp
      then show ?thesis using mult_div_mod_eq [of b n] by linarith
    qed
    finally show ?thesis using ih eq by simp
  qed
qed

lemma pow10_powi: "pow10 k = 10 powi k"
  by (simp add: pow10_def power_int_def field_simps)

lemma round_half_even_of_int [simp]: "round_half_even (of_int z) = z"
  by (simp add: round_half_even_def)

lemma lead_exp_le:
  assumes "0 < x"
  shows "pow10 (lead_exp 10 x) \<le> x"
proof (cases "1 \<le> x")
  case True
  then have n: "0 < \<lfloor>x\<rfloor>" by simp
  from ndigits_lower [of 10 "\<lfloor>x\<rfloor>"] n
  have d: "1 \<le> ndigits 10 \<lfloor>x\<rfloor>" "10 ^ nat (ndigits 10 \<lfloor>x\<rfloor> - 1) \<le> \<lfloor>x\<rfloor>"
    by simp_all
  have "pow10 (lead_exp 10 x) = 10 ^ nat (ndigits 10 \<lfloor>x\<rfloor> - 1)"
    using True d by (simp add: lead_exp_def pow10_def)
  also have "\<dots> = rat_of_int (10 ^ nat (ndigits 10 \<lfloor>x\<rfloor> - 1))"
    by simp
  also have "\<dots> \<le> of_int \<lfloor>x\<rfloor>"
    using d(2) by (simp only: of_int_le_iff)
  also have "\<dots> \<le> x"
    by simp
  finally show ?thesis .
next
  case False
  let ?n = "\<lceil>1 / x\<rceil> - 1"
  let ?m = "ndigits 10 ?n"
  have "x < 1"
    using False by simp
  with assms have "1 < 1 / x"
    by (simp only: less_divide_eq_1_pos)
  then have "rat_of_int 1 < 1 / x"
    by (simp only: of_int_1)
  then have "1 < \<lceil>1 / x\<rceil>"
    by (simp only: less_ceiling_iff)
  then have n: "0 \<le> ?n" by linarith
  from ndigits_upper [of 10 ?n] n have m: "0 \<le> ?m" "?n < 10 ^ nat ?m"
    by simp_all
  then have "\<lceil>1 / x\<rceil> \<le> 10 ^ nat ?m" by simp
  then have c: "rat_of_int \<lceil>1 / x\<rceil> \<le> rat_of_int (10 ^ nat ?m)"
    by (simp only: of_int_le_iff)
  have "1 / x \<le> rat_of_int \<lceil>1 / x\<rceil>"
    by (rule le_of_int_ceiling)
  also note c
  also have "rat_of_int (10 ^ nat ?m) = 10 ^ nat ?m"
    by simp
  finally have "1 / x \<le> 10 ^ nat ?m" .
  then have "1 / 10 ^ nat ?m \<le> x"
    using assms by (simp add: field_simps)
  moreover have "pow10 (lead_exp 10 x) = 1 / 10 ^ nat ?m"
    using False m by (auto simp: lead_exp_def pow10_def)
  ultimately show ?thesis by simp
qed

lemma ctx_round_exact:
  assumes "\<bar>c\<bar> < 10 ^ 28"
  shows "ctx_round (of_int c / 100) = of_int c / 100"
proof (cases "c = 0")
  case True
  then show ?thesis by (simp add: ctx_round_def)
next
  case False
  let ?x = "rat_of_int c / 100"
  let ?e = "lead_exp 10 \<bar>?x\<bar>"
  have pos: "0 < \<bar>?x\<bar>" using False by simp
  have "rat_of_int \<bar>c\<bar> < rat_of_int (10 ^ 28)"
    using assms by (simp only: of_int_less_iff)
  then have "\<bar>?x\<bar> < 10 powi 26"
    by simp
  moreover have "10 powi ?e \<le> \<bar>?x\<bar>"
    using lead_exp_le [OF pos] by (simp add: pow10_powi)
  ultimately have "(10::rat) powi ?e < 10 powi 26"
    by simp
  then have e: "?e < 26"
    using power_int_le_imp_less_exp [of "10::rat" ?e 26] by simp
  define k where "k = nat (25 - ?e)"
  have "nat (27 - ?e) = k + 2"
    using e by (simp add: k_def)
  then have "(10::rat) ^ nat (27 - ?e) = 100 * 10 ^ k"
    by (simp add: power_add)
  then have q: "pow10 (?e - (int prec - 1)) = 1 / (100 * 10 ^ k)"
    using e by (simp add: pow10_def prec_def)
  have "\<bar>?x\<bar> / pow10 (?e - (int prec - 1)) = rat_of_int (\<bar>c\<bar> * 10 ^ k)"
    unfolding q by simp
  then have r: "round_half_even (\<bar>?x\<bar> / pow10 (?e - (int prec - 1))) = \<bar>c\<bar> * 10 ^ k"
    by (simp only: round_half_even_of_int)
  have "?x \<noteq> 0"
    using False by simp
  then have "ctx_round ?x = sgn ?x * rat_of_int (\<bar>c\<bar> * 10 ^ k) * (1 / (100 * 10 ^ k))"
    by (simp only: ctx_round_def Let_def r if_False) (simp only: q)
  also have "\<dots> = sgn ?x * \<bar>?x\<bar>"
    by simp
  also have "\<dots> = ?x"
    by (simp only: sgn_mult_abs)
  finally show ?thesis .
qed

subsection \<open>Monetary rounding\<close>

lemma round_half_up_near:
  "\<bar>rat_of_int (round_half_up z) - z\<bar> \<le> 1 / 2 \<and>
   (\<bar>rat_of_int (round_half_up z) - z\<bar> = 1 / 2 \<longrightarrow> \<bar>z\<bar> < \<bar>rat_of_int (round_half_up z)\<bar>)"
proof -
  define f where "f = \<lfloor>\<bar>z\<bar> + 1 / 2\<rfloor>"
  have lo: "rat_of_int f \<le> \<bar>z\<bar> + 1 / 2" and hi: "\<bar>z\<bar> + 1 / 2 < rat_of_int f + 1"
    unfolding f_def by linarith+
  have r: "rat_of_int (round_half_up z) = (if z < 0 then - rat_of_int f else rat_of_int f)"
    by (simp add: round_half_up_def f_def)
  show ?thesis
  proof (cases "z < 0")
    case True
    with r lo hi show ?thesis by (auto simp: abs_if)
  next
    case False
    with r lo hi show ?thesis by (auto simp: abs_if)
  qed
qed

lemma r2_Inr: "r2 x = Inr y \<Longrightarrow> y = rat_of_int (round_half_up (x * 100)) / 100 \<and> \<bar>round_half_up (x * 100)\<bar> < 10 ^ 28"
  by (auto simp: r2_def quantize_cents_half_up_def Let_def prec_def split: if_splits)

text \<open>
  Claim C5. \<^verbatim>\<open>r2\<close> returns a multiple of one hundredth that is nearest to its argument, and
  a tie (an argument exactly halfway between two hundredths) goes to the one of larger
  magnitude, away from zero; it succeeds on every argument below \<open>10 ^ 26\<close> in magnitude.
  In particular \<^verbatim>\<open>r2(1.005)\<close> is \<open>1.01\<close> and \<^verbatim>\<open>r2(2.675)\<close> is \<open>2.68\<close>.
\<close>

theorem r2_round_half_up:
  "(r2 x = Inr y \<longrightarrow>
      (\<exists>c::int. y = of_int c / 100) \<and> \<bar>y - x\<bar> \<le> 1 / 200 \<and> (\<bar>y - x\<bar> = 1 / 200 \<longrightarrow> \<bar>x\<bar> < \<bar>y\<bar>))
   \<and> (\<bar>x\<bar> < 10 ^ 26 - 1 / 200 \<longrightarrow> (\<exists>y'. r2 x = Inr y'))
   \<and> r2 (1005 / 1000) = Inr (101 / 100)
   \<and> r2 (2675 / 1000) = Inr (268 / 100)"
proof (intro conjI impI)
  assume a: "r2 x = Inr y"
  then have y: "y = rat_of_int (round_half_up (x * 100)) / 100"
    using r2_Inr by blast
  then show "\<exists>c::int. y = of_int c / 100"
    by blast
  have d: "y - x = (rat_of_int (round_half_up (x * 100)) - x * 100) / 100"
    by (simp add: y field_simps)
  from round_half_up_near [of "x * 100"] show "\<bar>y - x\<bar> \<le> 1 / 200"
    unfolding d by (simp add: abs_divide)
  assume "\<bar>y - x\<bar> = 1 / 200"
  then have "\<bar>rat_of_int (round_half_up (x * 100)) - x * 100\<bar> = 1 / 2"
    unfolding d by (simp add: abs_divide)
  with round_half_up_near [of "x * 100"]
  have "\<bar>x * 100\<bar> < \<bar>rat_of_int (round_half_up (x * 100))\<bar>"
    by blast
  then show "\<bar>x\<bar> < \<bar>y\<bar>"
    by (simp add: y abs_mult abs_divide)
next
  assume b: "\<bar>x\<bar> < 10 ^ 26 - 1 / 200"
  have "\<bar>round_half_up (x * 100)\<bar> = \<lfloor>\<bar>x * 100\<bar> + 1 / 2\<rfloor>"
    by (simp add: round_half_up_def abs_if) linarith
  moreover have "\<bar>x * 100\<bar> + 1 / 2 < rat_of_int (10 ^ 28)"
    using b by (simp add: abs_mult)
  then have "\<lfloor>\<bar>x * 100\<bar> + 1 / 2\<rfloor> < 10 ^ 28"
    by (simp only: floor_less_iff)
  ultimately have "\<not> 10 ^ 28 \<le> \<bar>round_half_up (x * 100)\<bar>"
    by simp
  then have "r2 x = Inr (rat_of_int (round_half_up (x * 100)) / 100)"
    by (simp add: r2_def quantize_cents_half_up_def Let_def prec_def)
  then show "\<exists>y'. r2 x = Inr y'"
    by blast
next
  show "r2 (1005 / 1000) = Inr (101 / 100)"
    by (simp add: r2_def quantize_cents_half_up_def round_half_up_def prec_def)
  show "r2 (2675 / 1000) = Inr (268 / 100)"
    by (simp add: r2_def quantize_cents_half_up_def round_half_up_def prec_def)
qed

text \<open>The theorem at \<open>1.005\<close>, a tie between \<open>1.00\<close> and \<open>1.01\<close>.\<close>

theorem r2_round_half_up_witness:
  "r2 (1005 / 1000) = Inr (101 / 100) \<and> \<bar>(101 / 100 :: rat) - 1005 / 1000\<bar> = 1 / 200
   \<and> \<bar>1005 / 1000 :: rat\<bar> < \<bar>101 / 100\<bar> \<and> \<bar>1005 / 1000 :: rat\<bar> < 10 ^ 26 - 1 / 200"
  using r2_round_half_up [of "1005 / 1000" "101 / 100"] by simp

subsection \<open>Exact sums of amounts in hundredths\<close>

lemma ctx_round_cents:
  assumes "x * 100 \<in> \<int>" and "\<bar>x\<bar> < 10 ^ 26"
  shows "ctx_round x = x"
proof -
  from assms(1) obtain c :: int where c: "x * 100 = of_int c"
    by (auto elim: Ints_cases)
  then have x: "x = of_int c / 100"
    by simp
  have "\<bar>rat_of_int c\<bar> < rat_of_int (10 ^ 28)"
    using assms(2) by (simp add: x)
  then have "\<bar>c\<bar> < 10 ^ 28"
    by (metis of_int_abs of_int_less_iff)
  then show ?thesis
    unfolding x by (rule ctx_round_exact)
qed

lemma r2_cents:
  assumes "r2 x = Inr y"
  shows "y * 100 \<in> \<int>"
proof -
  from r2_Inr [OF assms] have "y * 100 = rat_of_int (round_half_up (x * 100))"
    by simp
  then show ?thesis
    by (simp only: Ints_of_int)
qed

lemma r2_bound:
  assumes "r2 x = Inr y"
  shows "\<bar>y\<bar> < 10 ^ 26"
proof -
  from r2_Inr [OF assms]
  have y: "y = rat_of_int (round_half_up (x * 100)) / 100" and b: "\<bar>round_half_up (x * 100)\<bar> < 10 ^ 28"
    by simp_all
  from b have "rat_of_int \<bar>round_half_up (x * 100)\<bar> < rat_of_int (10 ^ 28)"
    by (simp only: of_int_less_iff)
  then show ?thesis
    by (simp add: y)
qed

lemma r2_ctx_round: "r2 x = Inr y \<Longrightarrow> ctx_round y = y"
  by (rule ctx_round_cents) (auto dest: r2_cents r2_bound)

lemma dec_add_cents:
  "a * 100 \<in> \<int> \<Longrightarrow> b * 100 \<in> \<int> \<Longrightarrow> \<bar>a + b\<bar> < 10 ^ 26 \<Longrightarrow> dec_add a b = a + b"
  unfolding dec_add_def by (rule ctx_round_cents) (simp_all add: distrib_right)

lemma dec_sub_cents:
  "a * 100 \<in> \<int> \<Longrightarrow> b * 100 \<in> \<int> \<Longrightarrow> \<bar>a - b\<bar> < 10 ^ 26 \<Longrightarrow> dec_sub a b = a - b"
  unfolding dec_sub_def by (rule ctx_round_cents) (simp_all add: left_diff_distrib)

lemma dec_neg_cents:
  "a * 100 \<in> \<int> \<Longrightarrow> \<bar>a\<bar> < 10 ^ 26 \<Longrightarrow> dec_neg a = - a"
  unfolding dec_neg_def by (rule ctx_round_cents) simp_all

text \<open>Sums of amounts below \<open>10 ^ 25\<close> are exact.\<close>

lemma voucher_sums_exact:
  assumes c: "t * 100 \<in> \<int>" "ig * 100 \<in> \<int>" "cg * 100 \<in> \<int>" "sg * 100 \<in> \<int>" "tot * 100 \<in> \<int>"
    and b: "\<bar>t\<bar> < 10 ^ 25" "\<bar>ig\<bar> < 10 ^ 25" "\<bar>cg\<bar> < 10 ^ 25" "\<bar>sg\<bar> < 10 ^ 25" "\<bar>tot\<bar> < 10 ^ 25"
  shows "dec_add (dec_add ig cg) sg = ig + cg + sg"
    and "dec_add t (ig + cg + sg) = t + (ig + cg + sg)"
    and "dec_sub tot (t + (ig + cg + sg)) = tot - (t + (ig + cg + sg))"
    and "dec_neg (tot - (t + (ig + cg + sg))) = t + (ig + cg + sg) - tot"
proof -
  have 1: "dec_add ig cg = ig + cg"
    using c b by (intro dec_add_cents) simp_all
  have i1: "(ig + cg) * 100 \<in> \<int>"
    using c by (simp add: distrib_right)
  show "dec_add (dec_add ig cg) sg = ig + cg + sg"
    unfolding 1 using c b i1 by (intro dec_add_cents) simp_all
  have i2: "(ig + cg + sg) * 100 \<in> \<int>"
    using c by (simp add: distrib_right)
  show "dec_add t (ig + cg + sg) = t + (ig + cg + sg)"
    using c b i2 by (intro dec_add_cents) simp_all
  have i3: "(t + (ig + cg + sg)) * 100 \<in> \<int>"
    using c by (simp add: distrib_right)
  show "dec_sub tot (t + (ig + cg + sg)) = tot - (t + (ig + cg + sg))"
    using c b i3 by (intro dec_sub_cents) simp_all
  have i4: "(tot - (t + (ig + cg + sg))) * 100 \<in> \<int>"
    using c by (simp add: distrib_right left_diff_distrib)
  show "dec_neg (tot - (t + (ig + cg + sg))) = t + (ig + cg + sg) - tot"
    using dec_neg_cents [of "tot - (t + (ig + cg + sg))"] b i4 by simp
qed

section \<open>The zero-taxable guard\<close>

lemma floor_rat_one_div [simp]: "\<lfloor>(1::rat) / numeral b\<rfloor> = 1 div numeral b"
  by (metis floor_divide_of_int_eq of_int_1 of_int_numeral)

lemma r2_zero [simp]: "r2 0 = Inr 0"
  by (simp add: r2_def quantize_cents_half_up_def round_half_up_def prec_def)

lemma r2_not_div0: "r2 x \<noteq> Inl DivisionByZero"
  by (simp add: r2_def quantize_cents_half_up_def Let_def)

lemma strptime_not_div0: "strptime x \<noteq> Inl DivisionByZero"
  by (auto simp: strptime_def split: option.splits prod.splits if_splits)

lemma voucher_rate_not_div0: "voucher_rate a b \<noteq> Inl DivisionByZero"
  by (simp add: voucher_rate_def dec_div_def quantize_unit_def Let_def)

lemma build_voucher_not_div0: "build_voucher i \<noteq> Inl DivisionByZero"
  using r2_not_div0 strptime_not_div0 voucher_rate_not_div0
  by (auto simp: build_voucher_def Let_def split: sum.splits)

lemma voucher_rate_zero_taxable [simp]: "voucher_rate a 0 = Inr 0"
  by (simp add: voucher_rate_def)

text \<open>
  Claim C6. For an invoice whose taxable value is zero the Voucher Builder never fails with
  a division by zero: the rate is \<open>0\<close> by the guard \<^verbatim>\<open>if taxable != 0 else 0\<close>, whatever the
  tax total is, and once the date parses and the other four amounts round, a voucher is
  produced, with the rate \<open>0\<close> in its ledger names.
\<close>
theorem zero_taxable_guard:
  assumes "taxable_value i = 0"
  shows "build_voucher i \<noteq> Inl DivisionByZero
    \<and> (strptime (date i) = Inr d \<and> r2 (igst_amount i) = Inr ig \<and> r2 (cgst_amount i) = Inr cg
        \<and> r2 (sgst_amount i) = Inr sg \<and> r2 (total_invoice_value i) = Inr tot \<longrightarrow>
        voucher_rate (dec_add (dec_add ig cg) sg) 0 = Inr 0
        \<and> build_voucher i =
            Inr \<lparr>v_date = d,
                 v_referencedate = d,
                 v_reference = str_opt (invoice_number i),
                 v_vouchernumber = str_opt (invoice_number i),
                 v_partyledgername = str_opt (supplier_name i),
                 entries =
                   [party_entry i tot, debit_entry (purchase_ledger ig 0) 0]
                   @ tax_entries 0 ig cg sg
                   @ round_off_entries (dec_add 0 (dec_add (dec_add ig cg) sg)) tot\<rparr>)"
proof (intro conjI impI)
  show "build_voucher i \<noteq> Inl DivisionByZero"
    by (rule build_voucher_not_div0)
next
  assume a: "strptime (date i) = Inr d \<and> r2 (igst_amount i) = Inr ig \<and> r2 (cgst_amount i) = Inr cg
        \<and> r2 (sgst_amount i) = Inr sg \<and> r2 (total_invoice_value i) = Inr tot"
  show "voucher_rate (dec_add (dec_add ig cg) sg) 0 = Inr 0"
    by simp
  from a assms show "build_voucher i =
            Inr \<lparr>v_date = d,
                 v_referencedate = d,
                 v_reference = str_opt (invoice_number i),
                 v_vouchernumber = str_opt (invoice_number i),
                 v_partyledgername = str_opt (supplier_name i),
                 entries =
                   [party_entry i tot, debit_entry (purchase_ledger ig 0) 0]
                   @ tax_entries 0 ig cg sg
                   @ round_off_entries (dec_add 0 (dec_add (dec_add ig cg) sg)) tot\<rparr>"
    by (simp add: build_voucher_def)
qed

section \<open>Ledger planning\<close>

lemma created_create [simp]:
  "created (create_ledger_elem st n g b h) = insert n (created st)"
  by (auto simp: create_ledger_elem_def)

lemma create_known: "n \<in> created st \<Longrightarrow> create_ledger_elem st n g b h = st"
  by (simp add: create_ledger_elem_def)

lemma names_create:
  "map l_name (req_data (create_ledger_elem st n g b h)) =
     (if n \<in> created st then map l_name (req_data st) else map l_name (req_data st) @ [n])"
  by (simp add: create_ledger_elem_def)

lemma consistent_create: "consistent st \<Longrightarrow> consistent (create_ledger_elem st n g b h)"
  by (auto simp: consistent_def names_create)

lemma interstate_step_created:
  "interstate_step st ig t = Inr st' \<Longrightarrow>
     created st' = created st \<union>
       (if 0 < ig \<and> 0 < t
        then {Some (''Interstate Purchase '' @ str_int (projr (interstate_rate ig t)) @ ''%''),
              Some (''Input IGST '' @ str_int (projr (interstate_rate ig t)) @ ''%'')}
        else {})"
  by (auto simp: interstate_step_def split: if_splits sum.splits)

lemma local_step_created:
  "local_step st cg sg t = Inr st' \<Longrightarrow>
     created st' = created st \<union>
       (if (0 < cg \<or> 0 < sg) \<and> 0 < t
        then {Some (''Local Purchase '' @ str_int (projr (local_rate cg sg t)) @ ''%''),
              Some (''Input CGST '' @ str_int (projr (local_rate cg sg t) div 2) @ ''%''),
              Some (''Input SGST '' @ str_int (projr (local_rate cg sg t) div 2) @ ''%'')}
        else {})"
  by (auto simp: local_step_def split: if_splits sum.splits)

lemma interstate_step_consistent:
  "interstate_step st ig t = Inr st' \<Longrightarrow> consistent st \<Longrightarrow> consistent st'"
  by (auto simp: interstate_step_def consistent_create split: if_splits sum.splits)

lemma local_step_consistent:
  "local_step st cg sg t = Inr st' \<Longrightarrow> consistent st \<Longrightarrow> consistent st'"
  by (auto simp: local_step_def consistent_create split: if_splits sum.splits)

lemma interstate_step_known:
  "interstate_step st ig t = Inr st' \<Longrightarrow> created st' \<subseteq> created st2 \<Longrightarrow>
     interstate_step st2 ig t = Inr st2"
  by (auto simp: interstate_step_def create_known split: if_splits sum.splits)

lemma local_step_known:
  "local_step st cg sg t = Inr st' \<Longrightarrow> created st' \<subseteq> created st2 \<Longrightarrow>
     local_step st2 cg sg t = Inr st2"
  by (auto simp: local_step_def create_known split: if_splits sum.splits)

lemma plan_invoice_consistent:
  assumes "plan_invoice st i = Inr st'" and "consistent st"
  shows "consistent st'"
proof -
  from assms(1) obtain t ig cg sg s2 where
    a: "interstate_step (create_ledger_elem st (supplier_name i) ''Sundry Creditors'' False None) ig t = Inr s2"
    and b: "local_step s2 cg sg t = Inr st'"
    by (auto simp: plan_invoice_def split: sum.splits)
  from assms(2) have "consistent (create_ledger_elem st (supplier_name i) ''Sundry Creditors'' False None)"
    by (rule consistent_create)
  with a have "consistent s2"
    by (rule interstate_step_consistent)
  with b show ?thesis
    by (rule local_step_consistent)
qed

lemma plan_invoice_created:
  "plan_invoice st i = Inr st' \<Longrightarrow> insert (supplier_name i) (created st) \<subseteq> created st'"
  by (auto simp: plan_invoice_def split: sum.splits
      dest!: local_step_created interstate_step_created)

lemma plan_invoice_known:
  assumes "plan_invoice st i = Inr st'" and "created st' \<subseteq> created st2"
  shows "plan_invoice st2 i = Inr st2"
proof -
  from assms(1) obtain t ig cg sg s2 where
    f: "to_float (taxable_value i) = Inr t" "to_float (igst_amount i) = Inr ig"
       "to_float (cgst_amount i) = Inr cg" "to_float (sgst_amount i) = Inr sg"
    and a: "interstate_step (create_ledger_elem st (supplier_name i) ''Sundry Creditors'' False None) ig t = Inr s2"
    and b: "local_step s2 cg sg t = Inr st'"
    by (auto simp: plan_invoice_def split: sum.splits)
  from local_step_created [OF b] have "created s2 \<subseteq> created st'"
    by auto
  with assms(2) have s2: "created s2 \<subseteq> created st2"
    by simp
  from interstate_step_created [OF a] s2 have "supplier_name i \<in> created st2"
    by auto
  then have "create_ledger_elem st2 (supplier_name i) ''Sundry Creditors'' False None = st2"
    by (rule create_known)
  moreover have "interstate_step st2 ig t = Inr st2"
    using a s2 by (rule interstate_step_known)
  moreover have "local_step st2 cg sg t = Inr st2"
    using b assms(2) by (rule local_step_known)
  ultimately show ?thesis
    by (simp add: plan_invoice_def f)
qed

lemma plan_loop_append:
  "plan_loop st (xs @ ys) =
     (case plan_loop st xs of Inl e \<Rightarrow> Inl e | Inr st' \<Rightarrow> plan_loop st' ys)"
  by (induction xs arbitrary: st) (auto split: sum.splits)

lemma plan_loop_consistent:
  "plan_loop st xs = Inr st' \<Longrightarrow> consistent st \<Longrightarrow> consistent st'"
  by (induction xs arbitrary: st) (auto split: sum.splits dest: plan_invoice_consistent)

lemma plan_loop_created:
  "plan_loop st xs = Inr st' \<Longrightarrow> created st \<union> supplier_name ` set xs \<subseteq> created st'"
proof (induction xs arbitrary: st)
  case Nil
  then show ?case by simp
next
  case (Cons x xs)
  then obtain s1 where s1: "plan_invoice st x = Inr s1" "plan_loop s1 xs = Inr st'"
    by (auto split: sum.splits)
  from plan_invoice_created [OF s1(1)] Cons.IH [OF s1(2)] show ?case
    by auto
qed

lemma plan_loop_known:
  "plan_loop st xs = Inr st' \<Longrightarrow> i \<in> set xs \<Longrightarrow> created st' \<subseteq> created st2 \<Longrightarrow>
     plan_invoice st2 i = Inr st2"
proof (induction xs arbitrary: st)
  case Nil
  then show ?case by simp
next
  case (Cons x xs)
  then obtain s1 where s1: "plan_invoice st x = Inr s1" "plan_loop s1 xs = Inr st'"
    by (auto split: sum.splits)
  show ?case
  proof (cases "i = x")
    case True
    from plan_loop_created [OF s1(2)] Cons.prems(3) have "created s1 \<subseteq> created st2"
      by auto
    with s1(1) True show ?thesis
      by (auto intro: plan_invoice_known)
  next
    case False
    with Cons.prems(2) have "i \<in> set xs" by simp
    with Cons.IH [OF s1(2)] Cons.prems(3) show ?thesis by simp
  qed
qed

lemma plan_loop_fixed:
  "\<forall>i \<in> set xs. plan_invoice st i = Inr st \<Longrightarrow> plan_loop st xs = Inr st"
  by (induction xs) auto

lemma plan_loop_twice: "plan_loop st (xs @ xs) = plan_loop st xs"
proof (cases "plan_loop st xs")
  case (Inl e)
  then show ?thesis by (simp add: plan_loop_append)
next
  case (Inr st')
  then have "\<forall>i \<in> set xs. plan_invoice st' i = Inr st'"
    by (auto intro: plan_loop_known)
  then have "plan_loop st' xs = Inr st'"
    by (rule plan_loop_fixed)
  with Inr show ?thesis by (simp add: plan_loop_append)
qed

lemma consistent_initial:
  "consistent (create_ledger_elem \<lparr>req_data = [], created = {}\<rparr> n g b h)"
  by (simp add: consistent_def create_ledger_elem_def)

text \<open>
  Claim C4. Ledger planning is idempotent and deduplicating. Planning the invoices twice in
  a row (\<open>invoices @ invoices\<close>) gives exactly the document that planning them once gives,
  the same ledgers in the same order, and the same error if planning fails. In a document
  that is produced no two ledgers share a name, the \<^verbatim>\<open>Round Off\<close> ledger and every
  supplier's ledger are there, and planning any of the invoices again against the finished
  ledgers adds nothing: every ledger an invoice requires exists exactly once, however many
  invoices require it.
\<close>
theorem planner_idempotent_dedup:
  "generate_masters_string (invoices @ invoices) company_name =
     generate_masters_string invoices company_name
   \<and> (generate_masters_string invoices company_name = Inr doc \<longrightarrow>
        distinct (map l_name (m_ledgers doc))
        \<and> Some ''Round Off'' \<in> set (map l_name (m_ledgers doc))
        \<and> supplier_name ` set invoices \<subseteq> set (map l_name (m_ledgers doc))
        \<and> (\<forall>i \<in> set invoices.
              plan_invoice \<lparr>req_data = m_ledgers doc, created = set (map l_name (m_ledgers doc))\<rparr> i
                = Inr \<lparr>req_data = m_ledgers doc, created = set (map l_name (m_ledgers doc))\<rparr>))"
proof (intro conjI impI)
  show "generate_masters_string (invoices @ invoices) company_name =
     generate_masters_string invoices company_name"
    by (simp add: generate_masters_string_def plan_loop_twice)
next
  let ?st0 = "create_ledger_elem \<lparr>req_data = [], created = {}\<rparr>
                (Some ''Round Off'') ''Indirect Expenses'' False None"
  assume "generate_masters_string invoices company_name = Inr doc"
  then obtain st where st: "plan_loop ?st0 invoices = Inr st" and doc: "m_ledgers doc = req_data st"
    by (auto simp: generate_masters_string_def split: sum.splits)
  have c: "consistent st"
    using st consistent_initial by (rule plan_loop_consistent)
  then have cr: "created st = set (map l_name (m_ledgers doc))"
    by (simp add: consistent_def doc)
  from c show "distinct (map l_name (m_ledgers doc))"
    by (simp add: consistent_def doc)
  from plan_loop_created [OF st] have sub: "insert (Some ''Round Off'') (supplier_name ` set invoices) \<subseteq> created st"
    by auto
  then show "Some ''Round Off'' \<in> set (map l_name (m_ledgers doc))"
    unfolding cr by blast
  from sub show "supplier_name ` set invoices \<subseteq> set (map l_name (m_ledgers doc))"
    unfolding cr by blast
  from c have cr': "created st = set (map l_name (req_data st))"
    by (simp add: consistent_def)
  have eq: "\<lparr>req_data = m_ledgers doc, created = set (map l_name (m_ledgers doc))\<rparr> = st"
    unfolding doc cr' [symmetric] by simp
  show "\<forall>i \<in> set invoices.
          plan_invoice \<lparr>req_data = m_ledgers doc, created = set (map l_name (m_ledgers doc))\<rparr> i
            = Inr \<lparr>req_data = m_ledgers doc, created = set (map l_name (m_ledgers doc))\<rparr>"
    unfolding eq using st by (auto intro: plan_loop_known)
qed

section \<open>The dates the parse accepts\<close>

lemma digit_char_props:
  assumes "n < 10"
  shows "is_digit (digit_char n)" "digit_of (digit_char n) = n"
    "digit_char n \<noteq> CHR ''-''" "digit_char n \<noteq> CHR '' ''"
    "n \<noteq> 0 \<Longrightarrow> digit_char n \<in> set ''123456789''"
proof -
  from assms have "n \<in> {0, 1, 2, 3, 4, 5, 6, 7, 8, 9}"
    by auto
  then show "is_digit (digit_char n)" "digit_of (digit_char n) = n"
    "digit_char n \<noteq> CHR ''-''" "digit_char n \<noteq> CHR '' ''"
    "n \<noteq> 0 \<Longrightarrow> digit_char n \<in> set ''123456789''"
    by (auto simp: digit_char_def is_digit_def digit_of_def)
qed

lemma is_digit_props:
  assumes "is_digit c"
  shows "digit_of c < 10" "digit_char (digit_of c) = c"
  using assms by (auto simp: digit_char_def is_digit_def digit_of_def)

lemma nonzero_digit:
  assumes "c \<in> set ''123456789''"
  shows "1 \<le> digit_of c" "digit_of c < 10" "digit_char (digit_of c) = c"
  using assms by (auto simp: digit_char_def digit_of_def)

lemma parse_d_Some:
  assumes "parse_d ds = Some d"
  shows "1 \<le> d \<and> d \<le> 31 \<and> ds \<in> set (day_texts d)"
proof (cases ds)
  case Nil
  with assms show ?thesis by (simp add: parse_d_def)
next
  case (Cons a r)
  note ds = Cons
  show ?thesis
  proof (cases r)
    case Nil
    with ds assms have a: "a \<in> set ''123456789''" and d: "d = digit_of a"
      by (simp_all add: parse_d_def split: if_splits)
    from nonzero_digit [OF a] show ?thesis
      unfolding d ds Nil by (simp add: day_texts_def)
  next
    case (Cons b r')
    note r = Cons
    show ?thesis
    proof (cases r')
      case (Cons c r'')
      with ds r assms show ?thesis by (simp add: parse_d_def)
    next
      case Nil
      with ds r have s: "ds = [a, b]" by simp
      show ?thesis
      proof (cases "a = CHR ''3'' \<and> b \<in> set ''01''")
        case True
        with assms s have "d = 30 + digit_of b"
          by (auto simp: parse_d_def)
        with True s show ?thesis
          by (auto simp: day_texts_def digit_char_def digit_of_def)
      next
        case n1: False
        show ?thesis
        proof (cases "a \<in> set ''12'' \<and> is_digit b")
          case True
          with assms s n1 have d: "d = 10 * digit_of a + digit_of b"
            by (auto simp: parse_d_def)
          from True have b: "digit_of b < 10" "digit_char (digit_of b) = b"
            by (simp_all add: is_digit_props)
          from True have "a = CHR ''1'' \<or> a = CHR ''2''"
            by simp
          then show ?thesis
            using b unfolding d s by (auto simp: day_texts_def digit_char_def digit_of_def)
        next
          case n2: False
          show ?thesis
          proof (cases "a \<in> set ''0 '' \<and> b \<in> set ''123456789''")
            case True
            with assms s n1 n2 have d: "d = digit_of b"
              by (auto simp: parse_d_def split: if_splits)
            from True have "b \<in> set ''123456789''"
              by (rule conjunct2)
            note b = nonzero_digit [OF this]
            from True have "a = CHR ''0'' \<or> a = CHR '' ''"
              by simp
            then show ?thesis
              using b unfolding d s by (auto simp: day_texts_def)
          next
            case False
            with assms s n1 n2 show ?thesis
              by (auto simp: parse_d_def split: if_splits)
          qed
        qed
      qed
    qed
  qed
qed

lemma parse_Y_shape:
  assumes "parse_Y ys = Some y"
  shows "\<exists>a b c d. ys = [a, b, c, d] \<and> is_digit a \<and> is_digit b \<and> is_digit c \<and> is_digit d
           \<and> y = 1000 * digit_of a + 100 * digit_of b + 10 * digit_of c + digit_of d"
proof (cases ys)
  case Nil
  with assms show ?thesis by (simp add: parse_Y_def)
next
  case c1: (Cons a r1)
  show ?thesis
  proof (cases r1)
    case Nil
    with c1 assms show ?thesis by (simp add: parse_Y_def)
  next
    case c2: (Cons b r2)
    show ?thesis
    proof (cases r2)
      case Nil
      with c1 c2 assms show ?thesis by (simp add: parse_Y_def)
    next
      case c3: (Cons c r3)
      show ?thesis
      proof (cases r3)
        case Nil
        with c1 c2 c3 assms show ?thesis by (simp add: parse_Y_def)
      next
        case c4: (Cons d r4)
        show ?thesis
        proof (cases r4)
          case Nil
          with c1 c2 c3 c4 assms show ?thesis
            by (simp add: parse_Y_def split: if_splits)
        next
          case (Cons e r5)
          with c1 c2 c3 c4 assms show ?thesis by (simp add: parse_Y_def)
        qed
      qed
    qed
  qed
qed

lemma year_digits:
  fixes a b c d :: nat
  assumes "a < 10" "b < 10" "c < 10" "d < 10"
  shows "(1000 * a + 100 * b + 10 * c + d) div 1000 = a"
    "(1000 * a + 100 * b + 10 * c + d) div 100 mod 10 = b"
    "(1000 * a + 100 * b + 10 * c + d) div 10 mod 10 = c"
    "(1000 * a + 100 * b + 10 * c + d) mod 10 = d"
    "1000 * a + 100 * b + 10 * c + d \<le> 9999"
proof -
  let ?n = "1000 * a + 100 * b + 10 * c + d"
  show "?n div 1000 = a"
    by (rule div_nat_eqI) (use assms in simp_all)
  have "?n div 100 = 10 * a + b"
    by (rule div_nat_eqI) (use assms in simp_all)
  then show "?n div 100 mod 10 = b"
    using assms by simp
  have "?n div 10 = 10 * (10 * a + b) + c"
    by (rule div_nat_eqI) (use assms in simp_all)
  then show "?n div 10 mod 10 = c"
    using assms by (simp only: mod_mult_self2_is_0 mod_mult_self4 mod_less)
  have "?n = 10 * (100 * a + 10 * b + c) + d"
    by simp
  then show "?n mod 10 = d"
    using assms by (simp only: mod_mult_self4 mod_less)
  show "?n \<le> 9999"
    using assms by simp
qed

lemma parse_Y_Some:
  assumes "parse_Y ys = Some y"
  shows "y \<le> 9999 \<and> ys = year_text y"
proof -
  from parse_Y_shape [OF assms] obtain a b c d where ys: "ys = [a, b, c, d]"
    and dg: "is_digit a" "is_digit b" "is_digit c" "is_digit d"
    and y: "y = 1000 * digit_of a + 100 * digit_of b + 10 * digit_of c + digit_of d"
    by blast
  note p = is_digit_props [OF dg(1)] is_digit_props [OF dg(2)] is_digit_props [OF dg(3)]
    is_digit_props [OF dg(4)]
  note q = year_digits [OF p(1) p(3) p(5) p(7)]
  from q(5) have "y \<le> 9999"
    unfolding y .
  moreover have "ys = year_text y"
    unfolding y year_text_def ys q(1-4) by (simp add: p)
  ultimately show ?thesis
    by simp
qed

lemma parse_Y_year_text:
  assumes "y \<le> 9999"
  shows "parse_Y (year_text y) = Some y"
proof -
  have b: "y div 1000 < 10" "y div 100 mod 10 < 10" "y div 10 mod 10 < 10" "y mod 10 < 10"
    using assms by simp_all
  have "1000 * (y div 1000) + 100 * (y div 100 mod 10) + 10 * (y div 10 mod 10) + y mod 10 = y"
  proof -
    have h: "y div 100 = y div 10 div 10" "y div 1000 = y div 100 div 10"
      using div_mult2_eq [of y 10 10] div_mult2_eq [of y 100 10] by simp_all
    have "y div 10 = 10 * (y div 100) + y div 10 mod 10"
      unfolding h by simp
    moreover have "y div 100 = 10 * (y div 1000) + y div 100 mod 10"
      unfolding h(2) by simp
    moreover have "y = 10 * (y div 10) + y mod 10"
      by simp
    ultimately show ?thesis
      by linarith
  qed
  then show ?thesis
    by (simp add: parse_Y_def year_text_def digit_char_props b)
qed

lemma parse_m_Some:
  assumes "parse_m ms = Some m"
  shows "1 \<le> m \<and> m \<le> 12 \<and> ms \<in> set (month_texts m)"
proof (cases ms)
  case Nil
  with assms show ?thesis by (simp add: parse_m_def)
next
  case (Cons a r)
  note ms = Cons
  show ?thesis
  proof (cases r)
    case Nil
    with ms assms have a: "a \<in> set ''123456789''" and m: "m = digit_of a"
      by (simp_all add: parse_m_def split: if_splits)
    from nonzero_digit [OF a] show ?thesis
      unfolding m ms Nil by (simp add: month_texts_def)
  next
    case (Cons b r')
    note r = Cons
    show ?thesis
    proof (cases r')
      case (Cons c r'')
      with ms r assms show ?thesis by (simp add: parse_m_def)
    next
      case Nil
      with ms r have s: "ms = [a, b]" by simp
      show ?thesis
      proof (cases "a = CHR ''1'' \<and> b \<in> set ''012''")
        case True
        with assms s have "m = 10 + digit_of b"
          by (auto simp: parse_m_def)
        with True s show ?thesis
          by (auto simp: month_texts_def digit_char_def digit_of_def)
      next
        case n1: False
        show ?thesis
        proof (cases "a = CHR ''0'' \<and> b \<in> set ''123456789''")
          case True
          with assms s n1 have m: "m = digit_of b"
            by (auto simp: parse_m_def split: if_splits)
          from True have "b \<in> set ''123456789''"
            by (rule conjunct2)
          note b = nonzero_digit [OF this]
          from True have "a = CHR ''0''"
            by (rule conjunct1)
          then show ?thesis
            using b unfolding m s by (auto simp: month_texts_def)
        next
          case False
          with assms s n1 show ?thesis
            by (auto simp: parse_m_def split: if_splits)
        qed
      qed
    qed
  qed
qed

lemma parse_d_two:
  assumes "r < 10" and "q = 1 \<or> q = 2"
  shows "parse_d [digit_char q, digit_char r] = Some (10 * q + r)"
proof -
  note pr = digit_char_props(1,2) [OF assms(1)]
  have c: "digit_char 1 = CHR ''1''" "digit_char 2 = CHR ''2''"
    "digit_of CHR ''1'' = 1" "digit_of CHR ''2'' = 2"
    by (simp_all add: digit_char_def digit_of_def)
  have one: "parse_d [CHR ''1'', digit_char r] = Some (10 + r)"
    by (simp add: parse_d_def pr c)
  have two: "parse_d [CHR ''2'', digit_char r] = Some (20 + r)"
    by (simp add: parse_d_def pr c)
  from assms(2) show ?thesis
  proof
    assume "q = 1"
    with one show ?thesis
      by (simp only: c) simp
  next
    assume "q = 2"
    with two show ?thesis
      by (simp only: c) simp
  qed
qed

lemma parse_d_thirty:
  assumes "r = 0 \<or> r = 1"
  shows "parse_d [digit_char 3, digit_char r] = Some (30 + r)"
  using assms by (auto simp: parse_d_def digit_char_def digit_of_def)

lemma parse_d_day_texts:
  assumes "1 \<le> d" and "d \<le> 31" and "ds \<in> set (day_texts d)"
  shows "parse_d ds = Some d \<and> CHR ''-'' \<notin> set ds"
proof (cases "d < 10")
  case True
  note dp = digit_char_props [OF True]
  from assms(1) have "d \<noteq> 0"
    by simp
  note p = dp(5) [OF this] dp(2) dp(3)
  from assms(3) True
  have "ds = [digit_char d] \<or> ds = [CHR ''0'', digit_char d] \<or> ds = [CHR '' '', digit_char d]"
    by (simp add: day_texts_def)
  then show ?thesis
    using p by (auto simp: parse_d_def)
next
  case False
  with assms(3) have ds: "ds = [digit_char (d div 10), digit_char (d mod 10)]"
    by (simp add: day_texts_def)
  define q r where "q = d div 10" and "r = d mod 10"
  have d: "d = 10 * q + r" and r: "r < 10"
    by (simp_all add: q_def r_def)
  note pr = digit_char_props(3) [OF r]
  from False assms(2) have "q = 3 \<and> (r = 0 \<or> r = 1) \<or> (q = 1 \<or> q = 2)"
    unfolding d using r by linarith
  then have "parse_d [digit_char q, digit_char r] = Some (10 * q + r)"
    using parse_d_two [OF r, of q] parse_d_thirty [of r] by auto
  moreover have "digit_char q \<noteq> CHR ''-''"
    using \<open>q = 3 \<and> (r = 0 \<or> r = 1) \<or> (q = 1 \<or> q = 2)\<close>
    by (intro digit_char_props(3)) auto
  moreover have "ds = [digit_char q, digit_char r]"
    using ds by (simp only: q_def r_def)
  ultimately show ?thesis
    using pr d by simp
qed

lemma parse_m_month_texts:
  assumes "1 \<le> m" and "m \<le> 12" and "ms \<in> set (month_texts m)"
  shows "parse_m ms = Some m \<and> CHR ''-'' \<notin> set ms"
proof (cases "m < 10")
  case True
  note dp = digit_char_props [OF True]
  from assms(1) have "m \<noteq> 0"
    by simp
  note p = dp(5) [OF this] dp(2) dp(3)
  from assms(3) True have "ms = [digit_char m] \<or> ms = [CHR ''0'', digit_char m]"
    by (simp add: month_texts_def)
  then show ?thesis
    using p by (auto simp: parse_m_def)
next
  case False
  with assms(2) have "m = 10 \<or> m = 11 \<or> m = 12"
    by linarith
  with assms(3) show ?thesis
    by (auto simp: month_texts_def parse_m_def digit_char_def digit_of_def)
qed

lemma split_dash_Some:
  assumes "split_dash s = Some (a, b)"
  shows "s = a @ ''-'' @ b"
proof -
  from assms obtain c where d: "dropWhile (\<lambda>c. c \<noteq> CHR ''-'') s = c # b"
    and a: "a = takeWhile (\<lambda>c. c \<noteq> CHR ''-'') s"
    by (auto simp: split_dash_def split: list.splits)
  from d have "c = CHR ''-''"
    by (simp add: dropWhile_eq_Cons_conv)
  moreover have "s = takeWhile (\<lambda>c. c \<noteq> CHR ''-'') s @ dropWhile (\<lambda>c. c \<noteq> CHR ''-'') s"
    by simp
  ultimately show ?thesis
    unfolding a d by simp
qed

lemma split_dash_append:
  assumes "CHR ''-'' \<notin> set a"
  shows "split_dash (a @ ''-'' @ b) = Some (a, b)"
proof -
  from assms have p: "\<And>x. x \<in> set a \<Longrightarrow> x \<noteq> CHR ''-''"
    by auto
  have "takeWhile (\<lambda>c. c \<noteq> CHR ''-'') (a @ ''-'' @ b) = a"
    using p by (simp add: takeWhile_append2)
  moreover have "dropWhile (\<lambda>c. c \<noteq> CHR ''-'') (a @ ''-'' @ b) = ''-'' @ b"
    using p by (simp add: dropWhile_append2)
  ultimately show ?thesis
    by (simp add: split_dash_def)
qed

lemma days_in_month_le: "days_in_month y m \<le> 31"
  by (simp add: days_in_month_def)

lemma strptime_Inr:
  assumes "strptime (Some s) = Inr (y, m, d)"
  shows "\<exists>ds ms. s = ds @ ''-'' @ ms @ ''-'' @ year_text y
           \<and> ds \<in> set (day_texts d) \<and> ms \<in> set (month_texts m)
           \<and> 1 \<le> y \<and> y \<le> 9999 \<and> 1 \<le> m \<and> m \<le> 12 \<and> 1 \<le> d \<and> d \<le> days_in_month y m"
proof -
  from assms obtain ds rest ms ys where
    s1: "split_dash s = Some (ds, rest)" and s2: "split_dash rest = Some (ms, ys)"
    and p: "parse_d ds = Some d" "parse_m ms = Some m" "parse_Y ys = Some y"
    and v: "1 \<le> y" "d \<le> days_in_month y m"
    by (auto simp: strptime_def split: option.splits prod.splits if_splits)
  from split_dash_Some [OF s1] split_dash_Some [OF s2]
  have "s = ds @ ''-'' @ ms @ ''-'' @ ys"
    by simp
  with parse_d_Some [OF p(1)] parse_m_Some [OF p(2)] parse_Y_Some [OF p(3)] v show ?thesis
    by blast
qed

lemma strptime_dmy:
  assumes "ds \<in> set (day_texts d)" and "ms \<in> set (month_texts m)"
    and "1 \<le> y" "y \<le> 9999" "1 \<le> m" "m \<le> 12" "1 \<le> d" "d \<le> days_in_month y m"
  shows "strptime (Some (ds @ ''-'' @ ms @ ''-'' @ year_text y)) = Inr (y, m, d)"
proof -
  from assms(8) have "d \<le> 31"
    using days_in_month_le [of y m] by simp
  note pd = parse_d_day_texts [OF assms(7) this assms(1)]
  note pm = parse_m_month_texts [OF assms(5,6,2)]
  from pd split_dash_append [of ds "ms @ ''-'' @ year_text y"]
  have s1: "split_dash (ds @ CHR ''-'' # ms @ CHR ''-'' # year_text y) =
      Some (ds, ms @ CHR ''-'' # year_text y)"
    by simp
  from pm split_dash_append [of ms "year_text y"]
  have s2: "split_dash (ms @ CHR ''-'' # year_text y) = Some (ms, year_text y)"
    by simp
  show ?thesis
    unfolding strptime_def using pd pm parse_Y_year_text [OF assms(4)] assms(3,8)
    by (simp add: s1 s2)
qed

text \<open>The parse accepts exactly the day-month-year dates.\<close>

lemma strptime_accepts: "(\<exists>r. strptime x = Inr r) \<longleftrightarrow> dmy_field x"
proof (cases x)
  case None
  then show ?thesis
    by (simp add: strptime_def dmy_field_def)
next
  case (Some s)
  show ?thesis
  proof
    assume "\<exists>r. strptime x = Inr r"
    then obtain y m d where "strptime (Some s) = Inr (y, m, d)"
      unfolding Some by (metis prod_cases3)
    from strptime_Inr [OF this] show "dmy_field x"
      unfolding Some dmy_field_def dmy_date_def by (simp add: Bex_def) blast
  next
    assume "dmy_field x"
    then obtain y m d ds ms where "s = ds @ ''-'' @ ms @ ''-'' @ year_text y"
      "ds \<in> set (day_texts d)" "ms \<in> set (month_texts m)"
      "1 \<le> y" "y \<le> 9999" "1 \<le> m" "m \<le> 12" "1 \<le> d" "d \<le> days_in_month y m"
      unfolding Some dmy_field_def dmy_date_def by (auto simp: Bex_def)
    with strptime_dmy [of ds d ms m y] show "\<exists>r. strptime x = Inr r"
      unfolding Some by blast
  qed
qed


section \<open>Order of invoices and vouchers, failing dates\<close>

lemma inv_loop_eq: "inv_loop rp s acc rs = acc @ map (extract_invoice rp s) rs"
  by (induction rs arbitrary: acc) auto

lemma supplier_loop_eq:
  "supplier_loop rp acc ss =
     acc @ concat (map (\<lambda>s. map (extract_invoice rp s) (get_or (j_inv s) [])) ss)"
  by (induction ss arbitrary: acc) (auto simp: inv_loop_eq)

lemma voucher_loop_Inr:
  "voucher_loop acc xs = Inr vs \<longleftrightarrow> (\<exists>ws. vs = acc @ ws \<and> map build_voucher xs = map Inr ws)"
proof (induction xs arbitrary: acc)
  case Nil
  then show ?case by auto
next
  case (Cons x xs)
  show ?case
  proof (cases "build_voucher x")
    case (Inl e)
    then show ?thesis by (auto simp: map_eq_Cons_conv)
  next
    case (Inr v)
    have "(\<exists>ws. vs = (acc @ [v]) @ ws \<and> map build_voucher xs = map Inr ws) \<longleftrightarrow>
          (\<exists>ws. vs = acc @ ws \<and> Inr v # map build_voucher xs = map Inr ws)"
      by (auto simp: map_eq_Cons_conv Cons_eq_map_conv)
    with Inr Cons.IH [of "acc @ [v]"] show ?thesis by simp
  qed
qed

lemma voucher_loop_fail:
  "i \<in> set xs \<Longrightarrow> build_voucher i = Inl e \<Longrightarrow> \<exists>e'. voucher_loop acc xs = Inl e'"
  by (induction xs arbitrary: acc) (auto split: sum.splits)

lemma voucher_loop_total:
  "\<forall>i \<in> set xs. \<exists>v. build_voucher i = Inr v \<Longrightarrow> \<exists>vs. voucher_loop acc xs = Inr vs"
  by (induction xs arbitrary: acc) (auto split: sum.splits)

lemma build_voucher_bad_date: "strptime (date i) = Inl e \<Longrightarrow> build_voucher i = Inl e"
  by (simp add: build_voucher_def)

lemma build_voucher_number:
  "build_voucher i = Inr v \<Longrightarrow> v_vouchernumber v = str_opt (invoice_number i)"
  by (auto simp: build_voucher_def Let_def split: sum.splits)

text \<open>
  Claim C8. The Extractor returns the invoices in traversal order: the supplier groups in
  document order and, within each, its invoices in document order (the concatenation of the
  per-supplier lists). When the Voucher Builder returns a document, its vouchers are the
  vouchers of the invoices, one for each invoice and in the same order; nothing is merged or
  dropped, also when invoice numbers repeat, and the voucher numbers are the invoice numbers
  in input order. It returns a document whenever every single invoice can be built.
\<close>
theorem order_preserved:
  "process_gstr2b_logic raw_data =
     (let root = get_or (j_data raw_data) \<lparr>j_rtnprd = None, j_docdata = None\<rparr>;
          rp = get_or (j_rtnprd root) ''N/A'';
          b2b_sections = get_or (j_b2b (get_or (j_docdata root) \<lparr>j_b2b = None\<rparr>)) []
      in concat (map (\<lambda>s. map (extract_invoice rp s) (get_or (j_inv s) [])) b2b_sections))
   \<and> (generate_vouchers_string invoices company_name = Inr doc \<longrightarrow>
        map build_voucher invoices = map Inr (v_vouchers doc)
        \<and> length (v_vouchers doc) = length invoices
        \<and> map v_vouchernumber (v_vouchers doc) = map (str_opt \<circ> invoice_number) invoices)
   \<and> ((\<forall>i \<in> set invoices. \<exists>v. build_voucher i = Inr v) \<longrightarrow>
        (\<exists>doc'. generate_vouchers_string invoices company_name = Inr doc'))"
proof (intro conjI impI)
  show "process_gstr2b_logic raw_data =
     (let root = get_or (j_data raw_data) \<lparr>j_rtnprd = None, j_docdata = None\<rparr>;
          rp = get_or (j_rtnprd root) ''N/A'';
          b2b_sections = get_or (j_b2b (get_or (j_docdata root) \<lparr>j_b2b = None\<rparr>)) []
      in concat (map (\<lambda>s. map (extract_invoice rp s) (get_or (j_inv s) [])) b2b_sections))"
    by (simp add: process_gstr2b_logic_def supplier_loop_eq Let_def)
next
  assume "generate_vouchers_string invoices company_name = Inr doc"
  then have "voucher_loop [] invoices = Inr (v_vouchers doc)"
    by (auto simp: generate_vouchers_string_def split: sum.splits)
  then show m: "map build_voucher invoices = map Inr (v_vouchers doc)"
    by (simp add: voucher_loop_Inr)
  then show l: "length (v_vouchers doc) = length invoices"
    by (metis length_map)
  show "map v_vouchernumber (v_vouchers doc) = map (str_opt \<circ> invoice_number) invoices"
  proof (rule nth_equalityI)
    show "length (map v_vouchernumber (v_vouchers doc)) = length (map (str_opt \<circ> invoice_number) invoices)"
      using l by simp
    fix k assume "k < length (map v_vouchernumber (v_vouchers doc))"
    then have k: "k < length invoices" using l by simp
    then have "map build_voucher invoices ! k = map Inr (v_vouchers doc) ! k"
      using m by simp
    then have "build_voucher (invoices ! k) = Inr (v_vouchers doc ! k)"
      using k l by simp
    then show "map v_vouchernumber (v_vouchers doc) ! k = map (str_opt \<circ> invoice_number) invoices ! k"
      using k l by (simp add: build_voucher_number)
  qed
next
  assume "\<forall>i \<in> set invoices. \<exists>v. build_voucher i = Inr v"
  then obtain vs where "voucher_loop [] invoices = Inr vs"
    using voucher_loop_total by blast
  then show "\<exists>doc'. generate_vouchers_string invoices company_name = Inr doc'"
    by (simp add: generate_vouchers_string_def)
qed

lemma rejected_date_aborts:
  assumes "i \<in> set invoices" and "strptime (date i) = Inl e"
  shows "(\<exists>e'. generate_vouchers_string invoices company_name = Inl e')
         \<and> (process_gstr2b_logic raw_json = invoices \<longrightarrow>
              (\<exists>e'. process_gst raw_json company_name = Inl e'))"
proof -
  from assms(2) have "build_voucher i = Inl e"
    by (rule build_voucher_bad_date)
  with assms(1) obtain e' where "voucher_loop [] invoices = Inl e'"
    using voucher_loop_fail by blast
  then have g: "generate_vouchers_string invoices company_name = Inl e'"
    by (simp add: generate_vouchers_string_def)
  then show ?thesis
    by (auto simp: process_gst_def Let_def split: sum.splits)
qed

text \<open>
  Claim C7, amended. If the date field of at least one invoice of the sequence is absent or
  is not a day-month-year date (day, month and four-digit year joined by dashes, the day
  and the month written with one or two digits, a one-digit day or month possibly padded
  with a zero, a one-digit day also with a space, naming an existing day of a year from 1
  to 9999), the Voucher Builder returns an error and no vouchers document, whatever the
  other invoices are; and so does the whole conversion on a filing whose extracted invoices
  are that sequence. No invoice is skipped and no partial document is returned. A date
  written without padding, such as \<^verbatim>\<open>1-4-2024\<close>, is a day-month-year date and by itself
  does not make the conversion fail: the dates the parse rejects are exactly the others
  (lemma \<open>strptime_accepts\<close>).
\<close>
theorem malformed_date_aborts:
  assumes "i \<in> set invoices" and "\<not> dmy_field (date i)"
  shows "(\<exists>e'. generate_vouchers_string invoices company_name = Inl e')
         \<and> (process_gstr2b_logic raw_json = invoices \<longrightarrow>
              (\<exists>e'. process_gst raw_json company_name = Inl e'))"
proof -
  from assms(2) have "\<not> (\<exists>r. strptime (date i) = Inr r)"
    using strptime_accepts [of "date i"] by blast
  then obtain e where "strptime (date i) = Inl e"
    by (cases "strptime (date i)") auto
  with assms(1) show ?thesis
    by (rule rejected_date_aborts)
qed

section \<open>The lines of a voucher\<close>

lemma build_voucher_Inr:
  assumes "build_voucher i = Inr v"
  obtains d t ig cg sg tot rate where
    "strptime (date i) = Inr d" "r2 (taxable_value i) = Inr t" "r2 (igst_amount i) = Inr ig"
    "r2 (cgst_amount i) = Inr cg" "r2 (sgst_amount i) = Inr sg" "r2 (total_invoice_value i) = Inr tot"
    "voucher_rate (dec_add (dec_add ig cg) sg) t = Inr rate"
    "entries v = [party_entry i tot, debit_entry (purchase_ledger ig rate) t]
       @ tax_entries rate ig cg sg
       @ round_off_entries (dec_add t (dec_add (dec_add ig cg) sg)) tot"
  using assms by (auto simp: build_voucher_def Let_def split: sum.splits)

text \<open>
  Claim C9, amended. For every produced voucher the entries are the party line, the purchase
  line, the tax line(s), and then a \<^verbatim>\<open>Round Off\<close> line exactly when \<^verbatim>\<open>debit_calc\<close> (the rounded
  taxable value plus the rounded tax total) differs from the rounded invoice total. When
  present, its flag is \<^verbatim>\<open>No\<close> if \<open>total - debit_calc\<close> is positive and \<^verbatim>\<open>Yes\<close> otherwise, and
  its amount is the negation of that difference, \<open>debit_calc - total\<close>, not the difference
  itself. The sums are those of the decimal context; for amounts below \<open>10 ^ 25\<close> in
  magnitude they are exact.
\<close>
theorem round_off_entry:
  assumes "build_voucher i = Inr v"
    and "r2 (taxable_value i) = Inr t" and "r2 (igst_amount i) = Inr ig"
    and "r2 (cgst_amount i) = Inr cg" and "r2 (sgst_amount i) = Inr sg"
    and "r2 (total_invoice_value i) = Inr tot"
    and "debit_calc = dec_add t (dec_add (dec_add ig cg) sg)"
  shows "(\<exists>rate. entries v =
            [party_entry i tot, debit_entry (purchase_ledger ig rate) t]
            @ tax_entries rate ig cg sg
            @ (if debit_calc \<noteq> tot
               then [\<lparr>ledgername = ''Round Off'',
                      isdeemedpositive = (if 0 < dec_sub tot debit_calc then ''No'' else ''Yes''),
                      amount = Plain (dec_neg (dec_sub tot debit_calc)),
                      billallocations = None\<rparr>]
               else []))
         \<and> (\<bar>t\<bar> < 10 ^ 25 \<and> \<bar>ig\<bar> < 10 ^ 25 \<and> \<bar>cg\<bar> < 10 ^ 25 \<and> \<bar>sg\<bar> < 10 ^ 25 \<and> \<bar>tot\<bar> < 10 ^ 25 \<longrightarrow>
              debit_calc = t + (ig + cg + sg)
              \<and> dec_sub tot debit_calc = tot - debit_calc
              \<and> dec_neg (dec_sub tot debit_calc) = debit_calc - tot)"
proof (intro conjI impI)
  from assms(1) obtain rate where
    "entries v = [party_entry i tot, debit_entry (purchase_ledger ig rate) t]
       @ tax_entries rate ig cg sg
       @ round_off_entries (dec_add t (dec_add (dec_add ig cg) sg)) tot"
    by (rule build_voucher_Inr) (use assms(2-6) in auto)
  then show "\<exists>rate. entries v =
            [party_entry i tot, debit_entry (purchase_ledger ig rate) t]
            @ tax_entries rate ig cg sg
            @ (if debit_calc \<noteq> tot
               then [\<lparr>ledgername = ''Round Off'',
                      isdeemedpositive = (if 0 < dec_sub tot debit_calc then ''No'' else ''Yes''),
                      amount = Plain (dec_neg (dec_sub tot debit_calc)),
                      billallocations = None\<rparr>]
               else [])"
    unfolding assms(7) round_off_entries_def Let_def by blast
next
  assume b: "\<bar>t\<bar> < 10 ^ 25 \<and> \<bar>ig\<bar> < 10 ^ 25 \<and> \<bar>cg\<bar> < 10 ^ 25 \<and> \<bar>sg\<bar> < 10 ^ 25 \<and> \<bar>tot\<bar> < 10 ^ 25"
  have c: "t * 100 \<in> \<int>" "ig * 100 \<in> \<int>" "cg * 100 \<in> \<int>" "sg * 100 \<in> \<int>" "tot * 100 \<in> \<int>"
    using assms(2-6) by (auto dest: r2_cents)
  from b have b': "\<bar>t\<bar> < 10 ^ 25" "\<bar>ig\<bar> < 10 ^ 25" "\<bar>cg\<bar> < 10 ^ 25" "\<bar>sg\<bar> < 10 ^ 25" "\<bar>tot\<bar> < 10 ^ 25"
    by simp_all
  note ex = voucher_sums_exact [OF c b']
  show d: "debit_calc = t + (ig + cg + sg)"
    unfolding assms(7) ex ..
  show s: "dec_sub tot debit_calc = tot - debit_calc"
    unfolding d ex ..
  show "dec_neg (dec_sub tot debit_calc) = debit_calc - tot"
    unfolding d ex ..
qed

text \<open>The balance of a produced voucher, for amounts below \<open>10 ^ 25\<close>: the taxes that the
  emitted branch leaves out. It is zero for an invoice with IGST only (\<open>cgst + sgst = 0\<close>)
  and for an invoice without IGST.\<close>

lemma voucher_balance_eq:
  assumes "build_voucher i = Inr v"
    and "r2 (taxable_value i) = Inr t" and "r2 (igst_amount i) = Inr ig"
    and "r2 (cgst_amount i) = Inr cg" and "r2 (sgst_amount i) = Inr sg"
    and "r2 (total_invoice_value i) = Inr tot"
    and "\<bar>t\<bar> < 10 ^ 25" and "\<bar>ig\<bar> < 10 ^ 25" and "\<bar>cg\<bar> < 10 ^ 25" and "\<bar>sg\<bar> < 10 ^ 25"
    and "\<bar>tot\<bar> < 10 ^ 25"
  shows "voucher_balance v = (if 0 < ig then cg + sg else ig)"
proof -
  have c: "t * 100 \<in> \<int>" "ig * 100 \<in> \<int>" "cg * 100 \<in> \<int>" "sg * 100 \<in> \<int>" "tot * 100 \<in> \<int>"
    using assms(2-6) by (auto dest: r2_cents)
  note ex = voucher_sums_exact [OF c assms(7-11)]
  from assms(1) obtain rate where
    "entries v = [party_entry i tot, debit_entry (purchase_ledger ig rate) t]
       @ tax_entries rate ig cg sg
       @ round_off_entries (dec_add t (dec_add (dec_add ig cg) sg)) tot"
    by (rule build_voucher_Inr) (use assms(2-6) in auto)
  then show ?thesis
    unfolding voucher_balance_def round_off_entries_def Let_def ex
    by (simp add: party_entry_def debit_entry_def tax_entries_def)
qed

lemma fl_zero [simp]: "fl 0 = Some 0"
  by (simp add: fl_def)

lemma to_float_zero [simp]: "to_float 0 = Inr 0"
  by (simp add: to_float_def)

lemma str_int_zero [simp]: "str_int 0 = ''0''"
  by (simp add: str_int_def str_nat.simps digit_char_def)

lemma round_half_even_zero [simp]: "round_half_even 0 = 0"
  using round_half_even_of_int [of 0] by simp

lemma voucher_rate_no_tax: "voucher_rate 0 t = Inr 0"
  by (simp add: voucher_rate_def dec_div_def dec_mul_def ctx_round_def quantize_unit_def prec_def)

lemma dec_add_zero [simp]: "dec_add 0 0 = 0"
  by (simp add: dec_add_def ctx_round_def)

text \<open>
  Claim C10. For an invoice with no IGST, CGST and SGST whose date parses (and whose taxable
  value and total round), the Voucher Builder emits, after the party line, a purchase
  debit line \<^verbatim>\<open>Local Purchase 0%\<close> and two tax debit lines \<^verbatim>\<open>Input CGST 0%\<close> and
  \<^verbatim>\<open>Input SGST 0%\<close>, both with the amount text \<^verbatim>\<open>-0.00\<close> (a minus sign before the rounded
  zero). The Ledger Planner, for the same invoice, registers the supplier's ledger and
  nothing else (or fails converting the taxable value): no purchase and no tax ledger.
\<close>
theorem zero_tax_invoice:
  assumes "igst_amount i = 0" and "cgst_amount i = 0" and "sgst_amount i = 0"
    and "strptime (date i) = Inr d"
    and "r2 (taxable_value i) = Inr t" and "r2 (total_invoice_value i) = Inr tot"
  shows "build_voucher i =
           Inr \<lparr>v_date = d,
                v_referencedate = d,
                v_reference = str_opt (invoice_number i),
                v_vouchernumber = str_opt (invoice_number i),
                v_partyledgername = str_opt (supplier_name i),
                entries =
                  [party_entry i tot,
                   \<lparr>ledgername = ''Local Purchase 0%'', isdeemedpositive = ''Yes'',
                     amount = Minus t, billallocations = None\<rparr>,
                   \<lparr>ledgername = ''Input CGST 0%'', isdeemedpositive = ''Yes'',
                     amount = Minus 0, billallocations = None\<rparr>,
                   \<lparr>ledgername = ''Input SGST 0%'', isdeemedpositive = ''Yes'',
                     amount = Minus 0, billallocations = None\<rparr>]
                  @ round_off_entries t tot\<rparr>
         \<and> plan_invoice st i =
             (case to_float (taxable_value i) of
                Inl e \<Rightarrow> Inl e
              | Inr taxable \<Rightarrow>
                  Inr (create_ledger_elem st (supplier_name i) ''Sundry Creditors'' False None))"
proof
  have "dec_add t 0 = t"
    using assms(5) by (simp add: dec_add_def r2_ctx_round)
  then show "build_voucher i =
           Inr \<lparr>v_date = d,
                v_referencedate = d,
                v_reference = str_opt (invoice_number i),
                v_vouchernumber = str_opt (invoice_number i),
                v_partyledgername = str_opt (supplier_name i),
                entries =
                  [party_entry i tot,
                   \<lparr>ledgername = ''Local Purchase 0%'', isdeemedpositive = ''Yes'',
                     amount = Minus t, billallocations = None\<rparr>,
                   \<lparr>ledgername = ''Input CGST 0%'', isdeemedpositive = ''Yes'',
                     amount = Minus 0, billallocations = None\<rparr>,
                   \<lparr>ledgername = ''Input SGST 0%'', isdeemedpositive = ''Yes'',
                     amount = Minus 0, billallocations = None\<rparr>]
                  @ round_off_entries t tot\<rparr>"
    using assms
    by (simp add: build_voucher_def voucher_rate_no_tax purchase_ledger_def tax_entries_def
        debit_entry_def)
  show "plan_invoice st i =
             (case to_float (taxable_value i) of
                Inl e \<Rightarrow> Inl e
              | Inr taxable \<Rightarrow>
                  Inr (create_ledger_elem st (supplier_name i) ''Sundry Creditors'' False None))"
    using assms(1-3)
    by (simp add: plan_invoice_def interstate_step_def local_step_def split: sum.splits)
qed

text \<open>
  Claim C2, amended. The interstate step and the local step of the Ledger Planner are two
  independent \<^verbatim>\<open>if\<close> statements. After an invoice is planned, the created names are the
  earlier ones, the supplier's name, the two Interstate names exactly when
  \<open>igst > 0\<close> and \<open>taxable > 0\<close>, and the three Local names exactly when
  \<open>(cgst > 0 or sgst > 0)\<close> and \<open>taxable > 0\<close>, whether or not the interstate condition held.
  So one invoice registers both families exactly when both conditions hold, and only one
  of them (or none) otherwise.
\<close>
theorem planner_steps_independent:
  assumes "plan_invoice st i = Inr st'"
    and "to_float (taxable_value i) = Inr t" and "to_float (igst_amount i) = Inr ig"
    and "to_float (cgst_amount i) = Inr cg" and "to_float (sgst_amount i) = Inr sg"
  shows "created st' =
           insert (supplier_name i) (created st)
           \<union> (if 0 < ig \<and> 0 < t
              then {Some (''Interstate Purchase '' @ str_int (projr (interstate_rate ig t)) @ ''%''),
                    Some (''Input IGST '' @ str_int (projr (interstate_rate ig t)) @ ''%'')}
              else {})
           \<union> (if (0 < cg \<or> 0 < sg) \<and> 0 < t
              then {Some (''Local Purchase '' @ str_int (projr (local_rate cg sg t)) @ ''%''),
                    Some (''Input CGST '' @ str_int (projr (local_rate cg sg t) div 2) @ ''%''),
                    Some (''Input SGST '' @ str_int (projr (local_rate cg sg t) div 2) @ ''%'')}
              else {})"
proof -
  from assms obtain s2 where
    a: "interstate_step (create_ledger_elem st (supplier_name i) ''Sundry Creditors'' False None) ig t = Inr s2"
    and b: "local_step s2 cg sg t = Inr st'"
    by (auto simp: plan_invoice_def split: sum.splits)
  from interstate_step_created [OF a] local_step_created [OF b] show ?thesis
    by (simp only: created_create) 
qed

section \<open>Evaluation on sample invoices\<close>

lemma round_half_up_of_int [simp]: "round_half_up (of_int c) = c"
proof -
  have "\<lfloor>rat_of_int \<bar>c\<bar> + 1 / 2\<rfloor> = \<bar>c\<bar>"
    by (rule floor_unique) simp_all
  then show ?thesis
    by (simp add: round_half_up_def abs_if split: if_splits)
qed

lemma r2_exact:
  assumes "x * 100 \<in> \<int>" and "\<bar>x\<bar> < 10 ^ 26"
  shows "r2 x = Inr x"
proof -
  from assms(1) obtain c :: int where c: "x * 100 = of_int c"
    by (auto elim: Ints_cases)
  then have x: "x = of_int c / 100"
    by simp
  have "\<bar>rat_of_int c\<bar> < rat_of_int (10 ^ 28)"
    using assms(2) by (simp add: x)
  then have "\<bar>c\<bar> < 10 ^ 28"
    by (metis of_int_abs of_int_less_iff)
  then show ?thesis
    by (simp add: r2_def quantize_cents_half_up_def c prec_def x)
qed

lemma voucher_rate_exact:
  assumes "t \<noteq> 0" and "a / t * 100 = rat_of_int r" and "\<bar>r\<bar> < 10 ^ 26"
  shows "voucher_rate a t = Inr r"
proof -
  have b: "\<bar>rat_of_int r\<bar> < 10 ^ 26"
    using assms(3) by (metis of_int_abs of_int_less_iff of_int_numeral of_int_power)
  have q: "a / t = rat_of_int r / 100"
    using assms(2) by simp
  have "ctx_round (a / t) = a / t"
    unfolding q using b by (intro ctx_round_cents) simp_all
  moreover have "ctx_round (rat_of_int r) = rat_of_int r"
    using b by (intro ctx_round_cents) simp_all
  moreover have "\<bar>r\<bar> < 10 ^ 28"
    using assms(3) by simp
  ultimately show ?thesis
    using assms(1,2)
    by (simp add: voucher_rate_def dec_div_def dec_mul_def quantize_unit_def prec_def)
qed

text \<open>The date parse on some texts: day and month may be written without padding, the
  date must exist, and the fields come in the order day, month, year.\<close>

lemma strptime_examples:
  "strptime (Some ''01-04-2024'') = Inr (2024, 4, 1)"
  "strptime (Some ''1-4-2024'') = Inr (2024, 4, 1)"
  "strptime (Some ''29-02-2024'') = Inr (2024, 2, 29)"
  "strptime (Some ''31-02-2024'') = Inl ValueError"
  "strptime (Some ''2024-04-01'') = Inl ValueError"
  "strptime (Some ''01/04/2024'') = Inl ValueError"
  "strptime None = Inl TypeError"
  by (simp_all add: strptime_def split_dash_def parse_d_def parse_m_def parse_Y_def is_digit_def
      digit_of_def days_in_month_def is_leap_def)

text \<open>The voucher of a sample invoice whose amounts are already in hundredths and whose
  date is read as 1 April 2024.\<close>

lemma build_voucher_sample:
  assumes "t * 100 \<in> \<int>" "ig * 100 \<in> \<int>" "cg * 100 \<in> \<int>" "sg * 100 \<in> \<int>" "tot * 100 \<in> \<int>"
    and "\<bar>t\<bar> < 10 ^ 25" "\<bar>ig\<bar> < 10 ^ 25" "\<bar>cg\<bar> < 10 ^ 25" "\<bar>sg\<bar> < 10 ^ 25" "\<bar>tot\<bar> < 10 ^ 25"
    and "voucher_rate (ig + cg + sg) t = Inr rate"
    and "strptime (Some d) = Inr (2024, 4, 1)"
  shows "build_voucher (sample d t ig cg sg tot) =
           Inr (sample_voucher
                 ([sample_party tot, debit_entry (purchase_ledger ig rate) t]
                  @ tax_entries rate ig cg sg
                  @ round_off_entries (t + (ig + cg + sg)) tot))"
proof -
  have r: "r2 t = Inr t" "r2 ig = Inr ig" "r2 cg = Inr cg" "r2 sg = Inr sg" "r2 tot = Inr tot"
    using assms(1-10) by (auto intro!: r2_exact)
  note ex = voucher_sums_exact(1,2) [OF assms(1-10)]
  show ?thesis
    unfolding build_voucher_def
    by (simp add: sample_def r ex assms(11,12) sample_voucher_def sample_party_def
        party_entry_def str_opt_def)
qed

lemmas float_eval =
  to_float_def fl_def fadd_def fdiv_def fmul_def py_round_def lead_exp_def ndigits.simps pow2_def
  round_half_even_def Let_def

lemmas decimal_eval =
  dec_mul_def dec_div_def quantize_unit_def ctx_round_def lead_exp_def ndigits.simps pow10_def
  round_half_even_def prec_def Let_def

lemmas label_eval =
  purchase_ledger_def tax_entries_def str_int_def str_nat.simps digit_char_def

lemma to_float_examples:
  "to_float 1000 = Inr 1000" "to_float 180 = Inr 180" "to_float 90 = Inr 90" "to_float 45 = Inr 45"
  by (simp_all add: float_eval)

lemma planner_rate_examples:
  "interstate_rate 180 1000 = Inr 18"
  "interstate_rate 90 1000 = Inr 9"
  "local_rate 45 45 1000 = Inr 9"
  by (simp_all add: interstate_rate_def local_rate_def float_eval)

lemma voucher_rate_examples:
  "voucher_rate 180 1000 = Inr 18"
  "voucher_rate 18 100 = Inr 18"
  "voucher_rate 0 1000 = Inr 0"
  by (rule voucher_rate_exact; simp)+

text \<open>The Planner derives the rate in binary floating point and the Builder in decimal
  arithmetic: for IGST 57.5 on a taxable value of 100 the float product is just below
  57.5 and rounds to 57, the decimal quotient is the tie 57.5 and rounds to the even 58.\<close>

lemma rate_rounding_differs:
  "interstate_rate (115 / 2) 100 = Inr 57" "voucher_rate (115 / 2) 100 = Inr 58"
  by (simp_all add: interstate_rate_def float_eval voucher_rate_def decimal_eval)

lemmas voucher_eval =
  voucher_rate_examples label_eval round_off_entries_def dec_sub_cents dec_neg_cents
  strptime_examples

lemma sample_vouchers:
  "build_voucher (sample ''01-04-2024'' 1000 180 0 0 1180) =
     Inr (sample_voucher
           [sample_party 1180,
            debit_entry ''Interstate Purchase 18%'' 1000,
            debit_entry ''Input IGST 18%'' 180])"
  "build_voucher (sample ''01-04-2024'' 1000 90 45 45 1180) =
     Inr (sample_voucher
           [sample_party 1180,
            debit_entry ''Interstate Purchase 18%'' 1000,
            debit_entry ''Input IGST 18%'' 90])"
  "build_voucher (sample ''01-04-2024'' 100 18 0 0 (11801 / 100)) =
     Inr (sample_voucher
           [sample_party (11801 / 100),
            debit_entry ''Interstate Purchase 18%'' 100,
            debit_entry ''Input IGST 18%'' 18,
            \<lparr>ledgername = ''Round Off'', isdeemedpositive = ''No'',
              amount = Plain (- (1 / 100)), billallocations = None\<rparr>])"
  by (subst build_voucher_sample [where rate = 18]; simp add: voucher_eval)+

lemma sample_voucher_unpadded:
  "build_voucher (sample ''1-4-2024'' 1000 180 0 0 1180) =
     Inr (sample_voucher
           [sample_party 1180,
            debit_entry ''Interstate Purchase 18%'' 1000,
            debit_entry ''Input IGST 18%'' 180])"
  by (subst build_voucher_sample [where rate = 18]; simp add: voucher_eval)

lemma sample_voucher_zero_tax:
  "build_voucher (sample ''01-04-2024'' 1000 0 0 0 1000) =
     Inr (sample_voucher
           [sample_party 1000,
            debit_entry ''Local Purchase 0%'' 1000,
            debit_entry ''Input CGST 0%'' 0,
            debit_entry ''Input SGST 0%'' 0])"
  by (subst build_voucher_sample [where rate = 0]; simp add: voucher_eval)

lemma sample_voucher_zero_taxable:
  "build_voucher (sample ''01-04-2024'' 0 18 0 0 18) =
     Inr (sample_voucher
           [sample_party 18,
            debit_entry ''Interstate Purchase 0%'' 0,
            debit_entry ''Input IGST 0%'' 18])"
  by (subst build_voucher_sample [where rate = 0]; simp add: voucher_eval)

lemmas planner_eval =
  generate_masters_string_def plan_invoice_def interstate_step_def local_step_def
  create_ledger_elem_def sample_def to_float_examples planner_rate_examples
  str_int_def str_nat.simps digit_char_def
  round_off_ledger_def sample_party_ledger_def purchase_ledger_rec_def tax_ledger_rec_def

lemma sample_masters:
  "generate_masters_string [sample ''01-04-2024'' 1000 90 45 45 1180] ''Co'' =
     Inr \<lparr>m_company = ''Co'',
          m_ledgers =
            [round_off_ledger, sample_party_ledger,
             purchase_ledger_rec ''Interstate Purchase 9%'',
             tax_ledger_rec ''Input IGST 9%'' ''Integrated Tax'',
             purchase_ledger_rec ''Local Purchase 9%'',
             tax_ledger_rec ''Input CGST 4%'' ''Central Tax'',
             tax_ledger_rec ''Input SGST 4%'' ''State Tax'']\<rparr>"
  "generate_masters_string [sample ''01-04-2024'' 1000 0 0 0 1000] ''Co'' =
     Inr \<lparr>m_company = ''Co'', m_ledgers = [round_off_ledger, sample_party_ledger]\<rparr>"
  "generate_masters_string
     [sample ''01-04-2024'' 1000 180 0 0 1180, sample ''01-04-2024'' 1000 180 0 0 1180] ''Co'' =
     Inr \<lparr>m_company = ''Co'',
          m_ledgers =
            [round_off_ledger, sample_party_ledger,
             purchase_ledger_rec ''Interstate Purchase 18%'',
             tax_ledger_rec ''Input IGST 18%'' ''Integrated Tax'']\<rparr>"
  "generate_masters_string [sample ''01-04-2024'' 1000 180 0 0 1180] ''Co'' =
     Inr \<lparr>m_company = ''Co'',
          m_ledgers =
            [round_off_ledger, sample_party_ledger,
             purchase_ledger_rec ''Interstate Purchase 18%'',
             tax_ledger_rec ''Input IGST 18%'' ''Integrated Tax'']\<rparr>"
  by (simp_all add: planner_eval)

text \<open>
  Claim C1 at the invoice with taxable value 1000, IGST 90, CGST 45, SGST 45 and total 1180.
  \<^verbatim>\<open>debit_calc\<close> counts all three taxes and equals the total, so no \<^verbatim>\<open>Round Off\<close> line is
  added, but only the IGST line is emitted: the voucher has the lines \<open>1180\<close>, \<open>- 1000\<close>
  and \<open>- 90\<close>, whose signed amounts sum to \<open>90\<close>, not to zero.
\<close>
theorem mixed_invoice_unbalanced:
  "build_voucher (sample ''01-04-2024'' 1000 90 45 45 1180) =
     Inr (sample_voucher
           [sample_party 1180,
            debit_entry ''Interstate Purchase 18%'' 1000,
            debit_entry ''Input IGST 18%'' 90])
   \<and> voucher_balance
         (sample_voucher
           [sample_party 1180,
            debit_entry ''Interstate Purchase 18%'' 1000,
            debit_entry ''Input IGST 18%'' 90]) = 90"
  by (simp add: sample_vouchers voucher_balance_def sample_voucher_def sample_party_def
      debit_entry_def)

text \<open>
  The claim C2 as stated fails on the same invoice: its interstate condition holds
  (\<open>igst > 0\<close> and \<open>taxable > 0\<close>) and the Planner registers the Interstate family and the
  Local family.
\<close>
theorem planner_both_families_counterexample:
  "0 < igst_amount (sample ''01-04-2024'' 1000 90 45 45 1180)
   \<and> 0 < taxable_value (sample ''01-04-2024'' 1000 90 45 45 1180)
   \<and> generate_masters_string [sample ''01-04-2024'' 1000 90 45 45 1180] ''Co'' =
       Inr \<lparr>m_company = ''Co'',
            m_ledgers =
              [round_off_ledger, sample_party_ledger,
               purchase_ledger_rec ''Interstate Purchase 9%'',
               tax_ledger_rec ''Input IGST 9%'' ''Integrated Tax'',
               purchase_ledger_rec ''Local Purchase 9%'',
               tax_ledger_rec ''Input CGST 4%'' ''Central Tax'',
               tax_ledger_rec ''Input SGST 4%'' ''State Tax'']\<rparr>"
  by (simp add: sample_masters) (simp add: sample_def)

text \<open>The amended statement at the same invoice, planned from the empty state: both
  conditions hold and the names of both families are created.\<close>

theorem planner_steps_independent_witness:
  "plan_invoice \<lparr>req_data = [], created = {}\<rparr> (sample ''01-04-2024'' 1000 90 45 45 1180) =
     Inr (projr (plan_invoice \<lparr>req_data = [], created = {}\<rparr>
                   (sample ''01-04-2024'' 1000 90 45 45 1180)))
   \<and> to_float (taxable_value (sample ''01-04-2024'' 1000 90 45 45 1180)) = Inr 1000
   \<and> to_float (igst_amount (sample ''01-04-2024'' 1000 90 45 45 1180)) = Inr 90
   \<and> to_float (cgst_amount (sample ''01-04-2024'' 1000 90 45 45 1180)) = Inr 45
   \<and> to_float (sgst_amount (sample ''01-04-2024'' 1000 90 45 45 1180)) = Inr 45
   \<and> created (projr (plan_invoice \<lparr>req_data = [], created = {}\<rparr>
                        (sample ''01-04-2024'' 1000 90 45 45 1180))) =
       {Some ''Acme Traders'',
        Some ''Interstate Purchase 9%'', Some ''Input IGST 9%'',
        Some ''Local Purchase 9%'', Some ''Input CGST 4%'', Some ''Input SGST 4%''}"
proof -
  let ?s = "sample ''01-04-2024'' 1000 90 45 45 1180"
  have "\<exists>st'. plan_invoice \<lparr>req_data = [], created = {}\<rparr> ?s = Inr st'"
    by (simp add: planner_eval)
  then obtain st' where a: "plan_invoice \<lparr>req_data = [], created = {}\<rparr> ?s = Inr st'"
    by blast
  have f: "to_float (taxable_value ?s) = Inr 1000" "to_float (igst_amount ?s) = Inr 90"
    "to_float (cgst_amount ?s) = Inr 45" "to_float (sgst_amount ?s) = Inr 45"
    by (simp_all add: sample_def to_float_examples)
  from planner_steps_independent [OF a f]
  have "created st' =
       {Some ''Acme Traders'',
        Some ''Interstate Purchase 9%'', Some ''Input IGST 9%'',
        Some ''Local Purchase 9%'', Some ''Input CGST 4%'', Some ''Input SGST 4%''}"
    by (simp add: planner_rate_examples label_eval sample_def insert_commute)
  with a f show ?thesis
    by simp
qed

text \<open>
  Claim C3 at an invoice with taxable value 1000 and no tax at all. The Planner creates the
  \<^verbatim>\<open>Round Off\<close> ledger and the supplier's ledger only, while the Voucher Builder books the
  purchase on \<^verbatim>\<open>Local Purchase 0%\<close>, a ledger that the Planner did not create.
\<close>
theorem zero_tax_ledger_missing:
  "generate_masters_string [sample ''01-04-2024'' 1000 0 0 0 1000] ''Co'' =
     Inr \<lparr>m_company = ''Co'', m_ledgers = [round_off_ledger, sample_party_ledger]\<rparr>
   \<and> build_voucher (sample ''01-04-2024'' 1000 0 0 0 1000) =
       Inr (sample_voucher
             [sample_party 1000,
              debit_entry ''Local Purchase 0%'' 1000,
              debit_entry ''Input CGST 0%'' 0,
              debit_entry ''Input SGST 0%'' 0])
   \<and> Some ''Local Purchase 0%'' \<notin> set (map l_name [round_off_ledger, sample_party_ledger])"
  by (simp add: sample_masters sample_voucher_zero_tax)
     (simp add: round_off_ledger_def sample_party_ledger_def)

text \<open>Planning one interstate invoice once and twice gives the same four ledgers.\<close>

theorem planner_idempotent_dedup_witness:
  "generate_masters_string
     ([sample ''01-04-2024'' 1000 180 0 0 1180] @ [sample ''01-04-2024'' 1000 180 0 0 1180]) ''Co'' =
     generate_masters_string [sample ''01-04-2024'' 1000 180 0 0 1180] ''Co''
   \<and> generate_masters_string [sample ''01-04-2024'' 1000 180 0 0 1180] ''Co'' =
       Inr \<lparr>m_company = ''Co'',
            m_ledgers =
              [round_off_ledger, sample_party_ledger,
               purchase_ledger_rec ''Interstate Purchase 18%'',
               tax_ledger_rec ''Input IGST 18%'' ''Integrated Tax'']\<rparr>
   \<and> distinct (map l_name
                  [round_off_ledger, sample_party_ledger,
                   purchase_ledger_rec ''Interstate Purchase 18%'',
                   tax_ledger_rec ''Input IGST 18%'' ''Integrated Tax''])"
  using planner_idempotent_dedup
    [of "[sample ''01-04-2024'' 1000 180 0 0 1180]" "''Co''"
        "\<lparr>m_company = ''Co'',
          m_ledgers =
            [round_off_ledger, sample_party_ledger,
             purchase_ledger_rec ''Interstate Purchase 18%'',
             tax_ledger_rec ''Input IGST 18%'' ''Integrated Tax'']\<rparr>"]
  by (simp add: sample_masters)

text \<open>An invoice with taxable value 0 and IGST 18: the rate is 0 and a voucher is built.\<close>

theorem zero_taxable_guard_witness:
  "taxable_value (sample ''01-04-2024'' 0 18 0 0 18) = 0
   \<and> strptime (date (sample ''01-04-2024'' 0 18 0 0 18)) = Inr (2024, 4, 1)
   \<and> r2 (igst_amount (sample ''01-04-2024'' 0 18 0 0 18)) = Inr 18
   \<and> r2 (cgst_amount (sample ''01-04-2024'' 0 18 0 0 18)) = Inr 0
   \<and> r2 (sgst_amount (sample ''01-04-2024'' 0 18 0 0 18)) = Inr 0
   \<and> r2 (total_invoice_value (sample ''01-04-2024'' 0 18 0 0 18)) = Inr 18
   \<and> build_voucher (sample ''01-04-2024'' 0 18 0 0 18) \<noteq> Inl DivisionByZero
   \<and> build_voucher (sample ''01-04-2024'' 0 18 0 0 18) =
       Inr (sample_voucher
             [sample_party 18,
              debit_entry ''Interstate Purchase 0%'' 0,
              debit_entry ''Input IGST 0%'' 18])"
  using zero_taxable_guard [of "sample ''01-04-2024'' 0 18 0 0 18" "(2024, 4, 1)" 18 0 0 18]
  by (simp add: sample_voucher_zero_taxable) (simp add: sample_def strptime_examples r2_exact)

text \<open>The Extractor on the sample filing.\<close>

lemma sample_extraction:
  "process_gstr2b_logic (sample_filing [sample_raw d t ig cg sg tot] []) = [sample d t ig cg sg tot]"
  "process_gstr2b_logic
     (sample_filing [sample_raw d t ig cg sg tot, sample_raw d' t' ig' cg' sg' tot']
        [sample_raw d'' t'' ig'' cg'' sg'' tot'']) =
     [sample d t ig cg sg tot, sample d' t' ig' cg' sg' tot', sample d'' t'' ig'' cg'' sg'' tot'']"
  by (simp_all add: process_gstr2b_logic_def sample_filing_def sample_raw_def get_or_def
      extract_invoice_def sample_def)

text \<open>
  The claim C7 as stated fails at an invoice dated \<^verbatim>\<open>1-4-2024\<close>: the text is not of the
  pattern \<^verbatim>\<open>DD-MM-YYYY\<close>, and yet the voucher is built, the vouchers document is produced
  and the conversion of the filing succeeds.
\<close>
theorem unpadded_date_counterexample:
  "\<not> dd_mm_yyyy ''1-4-2024''
   \<and> date (sample ''1-4-2024'' 1000 180 0 0 1180) = Some ''1-4-2024''
   \<and> generate_vouchers_string [sample ''1-4-2024'' 1000 180 0 0 1180] ''Co'' =
       Inr \<lparr>v_company = ''Co'',
            v_vouchers =
              [sample_voucher
                 [sample_party 1180, debit_entry ''Interstate Purchase 18%'' 1000,
                  debit_entry ''Input IGST 18%'' 180]]\<rparr>
   \<and> process_gstr2b_logic (sample_filing [sample_raw ''1-4-2024'' 1000 180 0 0 1180] []) =
       [sample ''1-4-2024'' 1000 180 0 0 1180]
   \<and> \<not> isl (process_gst (sample_filing [sample_raw ''1-4-2024'' 1000 180 0 0 1180] []) ''Co'')"
proof -
  have 1: "\<not> dd_mm_yyyy ''1-4-2024''"
    by (simp add: dd_mm_yyyy_def)
  have 2: "date (sample ''1-4-2024'' 1000 180 0 0 1180) = Some ''1-4-2024''"
    by (simp add: sample_def)
  have 3: "generate_vouchers_string [sample ''1-4-2024'' 1000 180 0 0 1180] ''Co'' =
       Inr \<lparr>v_company = ''Co'',
            v_vouchers =
              [sample_voucher
                 [sample_party 1180, debit_entry ''Interstate Purchase 18%'' 1000,
                  debit_entry ''Input IGST 18%'' 180]]\<rparr>"
    by (simp add: generate_vouchers_string_def sample_voucher_unpadded)
  have "\<exists>doc. generate_masters_string [sample ''1-4-2024'' 1000 180 0 0 1180] ''Co'' = Inr doc"
    by (simp add: planner_eval)
  then have 5: "\<not> isl (process_gst (sample_filing [sample_raw ''1-4-2024'' 1000 180 0 0 1180] []) ''Co'')"
    by (auto simp: process_gst_def sample_extraction 3)
  from 1 2 3 5 show ?thesis
    by (simp add: sample_extraction)
qed

text \<open>The amended statement at three invoices, the second dated \<^verbatim>\<open>2024-04-01\<close>: no vouchers
  document, and the conversion of the filing they come from fails.\<close>

theorem malformed_date_aborts_witness:
  "sample ''2024-04-01'' 1000 180 0 0 1180
     \<in> set [sample ''01-04-2024'' 1000 180 0 0 1180, sample ''2024-04-01'' 1000 180 0 0 1180,
            sample ''01-04-2024'' 1000 180 0 0 1180]
   \<and> \<not> dmy_field (date (sample ''2024-04-01'' 1000 180 0 0 1180))
   \<and> generate_vouchers_string
        [sample ''01-04-2024'' 1000 180 0 0 1180, sample ''2024-04-01'' 1000 180 0 0 1180,
         sample ''01-04-2024'' 1000 180 0 0 1180] ''Co'' =
       Inl ValueError
   \<and> process_gstr2b_logic
        (sample_filing
           [sample_raw ''01-04-2024'' 1000 180 0 0 1180, sample_raw ''2024-04-01'' 1000 180 0 0 1180]
           [sample_raw ''01-04-2024'' 1000 180 0 0 1180]) =
       [sample ''01-04-2024'' 1000 180 0 0 1180, sample ''2024-04-01'' 1000 180 0 0 1180,
        sample ''01-04-2024'' 1000 180 0 0 1180]
   \<and> isl (process_gst
        (sample_filing
           [sample_raw ''01-04-2024'' 1000 180 0 0 1180, sample_raw ''2024-04-01'' 1000 180 0 0 1180]
           [sample_raw ''01-04-2024'' 1000 180 0 0 1180]) ''Co'')"
proof -
  let ?bad = "sample ''2024-04-01'' 1000 180 0 0 1180"
  let ?invoices = "[sample ''01-04-2024'' 1000 180 0 0 1180, ?bad,
                    sample ''01-04-2024'' 1000 180 0 0 1180]"
  let ?raw = "sample_filing
           [sample_raw ''01-04-2024'' 1000 180 0 0 1180, sample_raw ''2024-04-01'' 1000 180 0 0 1180]
           [sample_raw ''01-04-2024'' 1000 180 0 0 1180]"
  have d: "strptime (date ?bad) = Inl ValueError"
    by (simp add: sample_def strptime_examples)
  have nd: "\<not> dmy_field (date ?bad)"
    using strptime_accepts [of "date ?bad"] d by auto
  have m: "?bad \<in> set ?invoices"
    by simp
  have x: "process_gstr2b_logic ?raw = ?invoices"
    by (rule sample_extraction)
  note w = malformed_date_aborts [OF m nd, of "''Co''" ?raw]
  from w x have "\<exists>e'. process_gst ?raw ''Co'' = Inl e'"
    by blast
  then have p: "isl (process_gst ?raw ''Co'')"
    by auto
  have "generate_vouchers_string ?invoices ''Co'' = Inl ValueError"
    using w d by (simp add: generate_vouchers_string_def sample_vouchers build_voucher_bad_date)
  with nd m x p show ?thesis
    by simp
qed

text \<open>Three invoices with the same invoice number, two of them identical: three vouchers,
  in input order.\<close>

theorem order_preserved_witness:
  "process_gstr2b_logic
     (sample_filing
        [sample_raw ''01-04-2024'' 1000 180 0 0 1180, sample_raw ''01-04-2024'' 1000 0 0 0 1000]
        [sample_raw ''01-04-2024'' 1000 180 0 0 1180]) =
     [sample ''01-04-2024'' 1000 180 0 0 1180, sample ''01-04-2024'' 1000 0 0 0 1000,
      sample ''01-04-2024'' 1000 180 0 0 1180]
   \<and> generate_vouchers_string
       [sample ''01-04-2024'' 1000 180 0 0 1180, sample ''01-04-2024'' 1000 0 0 0 1000,
        sample ''01-04-2024'' 1000 180 0 0 1180] ''Co'' =
       Inr \<lparr>v_company = ''Co'',
            v_vouchers =
              [sample_voucher
                 [sample_party 1180, debit_entry ''Interstate Purchase 18%'' 1000,
                  debit_entry ''Input IGST 18%'' 180],
               sample_voucher
                 [sample_party 1000, debit_entry ''Local Purchase 0%'' 1000,
                  debit_entry ''Input CGST 0%'' 0, debit_entry ''Input SGST 0%'' 0],
               sample_voucher
                 [sample_party 1180, debit_entry ''Interstate Purchase 18%'' 1000,
                  debit_entry ''Input IGST 18%'' 180]]\<rparr>
   \<and> build_voucher (sample ''01-04-2024'' 1000 180 0 0 1180) =
       Inr (sample_voucher
             [sample_party 1180, debit_entry ''Interstate Purchase 18%'' 1000,
              debit_entry ''Input IGST 18%'' 180])
   \<and> build_voucher (sample ''01-04-2024'' 1000 0 0 0 1000) =
       Inr (sample_voucher
             [sample_party 1000, debit_entry ''Local Purchase 0%'' 1000,
              debit_entry ''Input CGST 0%'' 0, debit_entry ''Input SGST 0%'' 0])
   \<and> map v_vouchernumber
        [sample_voucher
           [sample_party 1180, debit_entry ''Interstate Purchase 18%'' 1000,
            debit_entry ''Input IGST 18%'' 180],
         sample_voucher
           [sample_party 1000, debit_entry ''Local Purchase 0%'' 1000,
            debit_entry ''Input CGST 0%'' 0, debit_entry ''Input SGST 0%'' 0],
         sample_voucher
           [sample_party 1180, debit_entry ''Interstate Purchase 18%'' 1000,
            debit_entry ''Input IGST 18%'' 180]] =
       [''INV-1'', ''INV-1'', ''INV-1'']"
  using order_preserved
    [of "sample_filing
           [sample_raw ''01-04-2024'' 1000 180 0 0 1180, sample_raw ''01-04-2024'' 1000 0 0 0 1000]
           [sample_raw ''01-04-2024'' 1000 180 0 0 1180]"
        "[sample ''01-04-2024'' 1000 180 0 0 1180, sample ''01-04-2024'' 1000 0 0 0 1000,
          sample ''01-04-2024'' 1000 180 0 0 1180]" "''Co''", THEN conjunct2]
  by (simp add: generate_vouchers_string_def sample_vouchers sample_voucher_zero_tax
      sample_voucher_def sample_extraction)

text \<open>
  The claim C9 as stated fails at an invoice with taxable value 100, IGST 18 and total
  118.01: the difference \<open>total - debit_calc\<close> is \<open>0.01\<close>, and the amount of the
  \<^verbatim>\<open>Round Off\<close> line is \<open>- 0.01\<close>.
\<close>
theorem round_off_amount_counterexample:
  "build_voucher (sample ''01-04-2024'' 100 18 0 0 (11801 / 100)) =
     Inr (sample_voucher
           [sample_party (11801 / 100),
            debit_entry ''Interstate Purchase 18%'' 100,
            debit_entry ''Input IGST 18%'' 18,
            \<lparr>ledgername = ''Round Off'', isdeemedpositive = ''No'',
              amount = Plain (- (1 / 100)), billallocations = None\<rparr>])
   \<and> signed_amount (Plain (- (1 / 100))) \<noteq> 11801 / 100 - (100 + (18 + 0 + 0))"
  by (simp add: sample_vouchers)

text \<open>The amended statement at the same invoice.\<close>

theorem round_off_entry_witness:
  "build_voucher (sample ''01-04-2024'' 100 18 0 0 (11801 / 100)) =
     Inr (sample_voucher
           [sample_party (11801 / 100),
            debit_entry ''Interstate Purchase 18%'' 100,
            debit_entry ''Input IGST 18%'' 18,
            \<lparr>ledgername = ''Round Off'', isdeemedpositive = ''No'',
              amount = Plain (- (1 / 100)), billallocations = None\<rparr>])
   \<and> r2 (taxable_value (sample ''01-04-2024'' 100 18 0 0 (11801 / 100))) = Inr 100
   \<and> r2 (igst_amount (sample ''01-04-2024'' 100 18 0 0 (11801 / 100))) = Inr 18
   \<and> r2 (cgst_amount (sample ''01-04-2024'' 100 18 0 0 (11801 / 100))) = Inr 0
   \<and> r2 (sgst_amount (sample ''01-04-2024'' 100 18 0 0 (11801 / 100))) = Inr 0
   \<and> r2 (total_invoice_value (sample ''01-04-2024'' 100 18 0 0 (11801 / 100))) = Inr (11801 / 100)
   \<and> \<bar>100 :: rat\<bar> < 10 ^ 25 \<and> \<bar>18 :: rat\<bar> < 10 ^ 25 \<and> \<bar>0 :: rat\<bar> < 10 ^ 25
   \<and> \<bar>11801 / 100 :: rat\<bar> < 10 ^ 25
   \<and> dec_add 100 (dec_add (dec_add 18 0) 0) = 118
   \<and> dec_sub (11801 / 100) (dec_add 100 (dec_add (dec_add 18 0) 0)) = 1 / 100
   \<and> dec_neg (dec_sub (11801 / 100) (dec_add 100 (dec_add (dec_add 18 0) 0))) = - (1 / 100)"
proof -
  let ?s = "sample ''01-04-2024'' 100 18 0 0 (11801 / 100)"
  have r: "r2 (taxable_value ?s) = Inr 100" "r2 (igst_amount ?s) = Inr 18"
    "r2 (cgst_amount ?s) = Inr 0" "r2 (sgst_amount ?s) = Inr 0"
    "r2 (total_invoice_value ?s) = Inr (11801 / 100)"
    by (simp_all add: sample_def r2_exact)
  have b: "\<bar>100 :: rat\<bar> < 10 ^ 25 \<and> \<bar>18 :: rat\<bar> < 10 ^ 25 \<and> \<bar>0 :: rat\<bar> < 10 ^ 25
      \<and> \<bar>0 :: rat\<bar> < 10 ^ 25 \<and> \<bar>11801 / 100 :: rat\<bar> < 10 ^ 25"
    by simp
  note w = round_off_entry [OF sample_vouchers(3) r refl, THEN conjunct2, rule_format, OF b]
  from w have d: "dec_add 100 (dec_add (dec_add 18 0) 0) = 118"
    by simp
  from w have s: "dec_sub (11801 / 100) 118 = 1 / 100"
    unfolding d by simp
  from w have n: "dec_neg (1 / 100) = - (1 / 100)"
    unfolding d s by simp
  from r show ?thesis
    by (simp add: sample_vouchers d s n)
qed

text \<open>An invoice with taxable value 1000 and no tax, planned after the \<^verbatim>\<open>Round Off\<close>
  ledger.\<close>

theorem zero_tax_invoice_witness:
  "igst_amount (sample ''01-04-2024'' 1000 0 0 0 1000) = 0
   \<and> cgst_amount (sample ''01-04-2024'' 1000 0 0 0 1000) = 0
   \<and> sgst_amount (sample ''01-04-2024'' 1000 0 0 0 1000) = 0
   \<and> strptime (date (sample ''01-04-2024'' 1000 0 0 0 1000)) = Inr (2024, 4, 1)
   \<and> r2 (taxable_value (sample ''01-04-2024'' 1000 0 0 0 1000)) = Inr 1000
   \<and> r2 (total_invoice_value (sample ''01-04-2024'' 1000 0 0 0 1000)) = Inr 1000
   \<and> map ledgername (entries (projr (build_voucher (sample ''01-04-2024'' 1000 0 0 0 1000)))) =
       [''Acme Traders'', ''Local Purchase 0%'', ''Input CGST 0%'', ''Input SGST 0%'']
   \<and> plan_invoice \<lparr>req_data = [round_off_ledger], created = {Some ''Round Off''}\<rparr>
        (sample ''01-04-2024'' 1000 0 0 0 1000) =
       Inr \<lparr>req_data = [round_off_ledger, sample_party_ledger],
            created = {Some ''Acme Traders'', Some ''Round Off''}\<rparr>"
  using zero_tax_invoice
    [of "sample ''01-04-2024'' 1000 0 0 0 1000" "(2024, 4, 1)" 1000 1000
        "\<lparr>req_data = [round_off_ledger], created = {Some ''Round Off''}\<rparr>"]
  by (simp add: sample_voucher_zero_tax sample_voucher_def sample_party_def debit_entry_def)
     (simp add: sample_def strptime_examples r2_exact to_float_examples create_ledger_elem_def
       sample_party_ledger_def)

end
